theory Spec2Isabelle
  imports Complex_Main
begin

section \<open>JavaScript values and the library operations the sources rely on\<close>

text \<open>
  The sources are JavaScript. Values that cross module boundaries (chunk fields, payloads,
  HTTP response bodies) are untyped there, so they are modelled by one datatype of
  JSON-like values. An object is an association list in insertion order; a property read
  takes the first binding of a key. Numbers are integers: floating point is not modelled
  (vector components and similarity scores are opaque to every function below).
  A \<open>string\<close> is a list of characters, one \<open>char\<close> for each UTF-16 code unit of the
  JavaScript string; code units above 255 are outside the model.
\<close>

datatype jsval =
    JUndefined
  | JNull
  | JBool bool
  | JNum int
  | JStr string
  | JArr "jsval list"
  | JObj "(string \<times> jsval) list"

type_synonym jsobj = "(string \<times> jsval) list"

text \<open>Exceptions, by origin: the one \<open>Error\<close> the sources throw themselves, a
  \<open>TypeError\<close> of the runtime (reading \<open>.length\<close> of \<open>undefined\<close>), a failure of the
  tokenizer library, and a failure of the vector database client.\<close>

datatype error = InvalidEmbeddingResponse | TypeError | TokenizerError | BackendError

fun is_array :: "jsval \<Rightarrow> bool" where
  "is_array (JArr xs) = True"
| "is_array v = False"

fun is_string :: "jsval \<Rightarrow> bool" where
  "is_string (JStr s) = True"
| "is_string v = False"

fun js_truthy :: "jsval \<Rightarrow> bool" where
  "js_truthy JUndefined = False"
| "js_truthy JNull = False"
| "js_truthy (JBool b) = b"
| "js_truthy (JNum n) = (n \<noteq> 0)"
| "js_truthy (JStr s) = (s \<noteq> [])"
| "js_truthy (JArr xs) = True"
| "js_truthy (JObj kvs) = True"

text \<open>\<^verbatim>\<open>a || b\<close>\<close>

definition js_or :: "jsval \<Rightarrow> jsval \<Rightarrow> jsval" where
  "js_or a b = (if js_truthy a then a else b)"

fun digit_char :: "nat \<Rightarrow> char" where
  "digit_char n = char_of (48 + n)"

fun show_nat :: "nat \<Rightarrow> string" where
  "show_nat n = (if n < 10 then [digit_char n] else show_nat (n div 10) @ [digit_char (n mod 10)])"

definition show_int :: "int \<Rightarrow> string" where
  "show_int i = (if i < 0 then CHR ''-'' # show_nat (nat (- i)) else show_nat (nat i))"

text \<open>\<^verbatim>\<open>Array.prototype.join\<close> on strings.\<close>

fun js_join :: "string \<Rightarrow> string list \<Rightarrow> string" where
  "js_join sep [] = []"
| "js_join sep [s] = s"
| "js_join sep (s # t # ss) = s @ sep @ js_join sep (t # ss)"

text \<open>\<^verbatim>\<open>String(v)\<close>: an array joins its elements with a comma, \<open>null\<close> and \<open>undefined\<close>
  elements giving the empty string; a plain object gives \<^verbatim>\<open>[object Object]\<close>.\<close>

fun js_String :: "jsval \<Rightarrow> string" where
  "js_String JUndefined = ''undefined''"
| "js_String JNull = ''null''"
| "js_String (JBool b) = (if b then ''true'' else ''false'')"
| "js_String (JNum n) = show_int n"
| "js_String (JStr s) = s"
| "js_String (JArr xs) =
     js_join '','' (map (\<lambda>v. if v = JUndefined \<or> v = JNull then [] else js_String v) xs)"
| "js_String (JObj kvs) = ''[object Object]''"

text \<open>\<^verbatim>\<open>xs.slice(start, end)\<close> for arrays and strings: a negative index counts from the
  end, every index is clamped into the sequence, and an empty range gives the empty
  sequence. \<^verbatim>\<open>xs.slice(start)\<close> is the same with the length as end.\<close>

definition js_slice :: "'a list \<Rightarrow> int \<Rightarrow> int \<Rightarrow> 'a list" where
  "js_slice xs start end =
     (let len = int (length xs);
          k = (if start < 0 then max (len + start) 0 else min start len);
          final = (if end < 0 then max (len + end) 0 else min end len)
      in take (nat (final - k)) (drop (nat k) xs))"

definition js_slice_from :: "'a list \<Rightarrow> int \<Rightarrow> 'a list" where
  "js_slice_from xs start = js_slice xs start (int (length xs))"

text \<open>Property read \<^verbatim>\<open>o.k\<close> on an object, and the optional-chained read \<^verbatim>\<open>v?.k\<close> on any
  value for the data keys the sources read (none of them is a built-in property of a
  string, a number or an array).\<close>

definition obj_lookup :: "jsobj \<Rightarrow> string \<Rightarrow> jsval option" where
  "obj_lookup obj k = map_of obj k"

fun js_get :: "jsval \<Rightarrow> string \<Rightarrow> jsval" where
  "js_get (JObj kvs) k = (case obj_lookup kvs k of Some v \<Rightarrow> v | None \<Rightarrow> JUndefined)"
| "js_get v k = JUndefined"

text \<open>\<^verbatim>\<open>a[0]\<close> on a value already known to be an array.\<close>

fun js_first :: "jsval \<Rightarrow> jsval" where
  "js_first (JArr (x # xs)) = x"
| "js_first v = JUndefined"

text \<open>\<^verbatim>\<open>v.length\<close>: a \<open>TypeError\<close> on \<open>undefined\<close> and \<open>null\<close>, \<open>undefined\<close> on values
  without the property.\<close>

fun js_length :: "jsval \<Rightarrow> error + jsval" where
  "js_length JUndefined = Inl TypeError"
| "js_length JNull = Inl TypeError"
| "js_length (JArr xs) = Inr (JNum (int (length xs)))"
| "js_length (JStr s) = Inr (JNum (int (length s)))"
| "js_length v = Inr JUndefined"

text \<open>Assignment \<^verbatim>\<open>o[k] = v\<close>: an existing key keeps its position.\<close>

fun obj_set :: "string \<Rightarrow> jsval \<Rightarrow> jsobj \<Rightarrow> jsobj" where
  "obj_set k v [] = [(k, v)]"
| "obj_set k v ((k', v') # rest) =
     (if k' = k then (k, v) # rest else (k', v') # obj_set k v rest)"

text \<open>The own keys of an object, each once, in order of first occurrence.\<close>

definition own_keys :: "jsobj \<Rightarrow> string list" where
  "own_keys obj = rev (remdups (rev (map fst obj)))"

text \<open>Object spread \<^verbatim>\<open>{ ...target, ...src }\<close>: every own key of \<open>src\<close>, in order, is
  read from \<open>src\<close> and assigned to the result.\<close>

definition obj_spread :: "jsobj \<Rightarrow> jsobj \<Rightarrow> jsobj" where
  "obj_spread target src =
     fold (\<lambda>k acc. case obj_lookup src k of Some v \<Rightarrow> obj_set k v acc | None \<Rightarrow> acc)
       (own_keys src) target"

text \<open>White space as \<^verbatim>\<open>\s\<close> and \<^verbatim>\<open>trim\<close> see it, among the code units below 256.\<close>

definition js_whitespace :: "char \<Rightarrow> bool" where
  "js_whitespace c = (of_char c \<in> {9, 10, 11, 12, 13, 32, 160 :: nat})"

definition js_trim :: "string \<Rightarrow> string" where
  "js_trim s = rev (dropWhile js_whitespace (rev (dropWhile js_whitespace s)))"

text \<open>\<^verbatim>\<open>s.split(/[...]+/)\<close> for a character class \<open>sep\<close>: the pieces between maximal runs
  of separator characters. The piece before a leading run and the piece after a trailing
  run are empty strings, and a string without separators is its own single piece.\<close>

function split_runs :: "(char \<Rightarrow> bool) \<Rightarrow> string \<Rightarrow> string \<Rightarrow> string list" where
  "split_runs sep cur [] = [cur]"
| "split_runs sep cur (c # cs) =
     (if sep c then cur # split_runs sep [] (dropWhile sep cs)
      else split_runs sep (cur @ [c]) cs)"
  by pat_completeness auto
termination
  by (relation "measure (\<lambda>(sep, cur, s). length s)")
     (auto simp: length_dropWhile_le le_imp_less_Suc)

definition js_split :: "(char \<Rightarrow> bool) \<Rightarrow> string \<Rightarrow> string list" where
  "js_split sep s = split_runs sep [] s"

text \<open>\<^verbatim>\<open>toLowerCase\<close> on the code units below 256.\<close>

definition lower_char :: "char \<Rightarrow> char" where
  "lower_char c =
     (let n = (of_char c :: nat)
      in if (65 \<le> n \<and> n \<le> 90) \<or> (192 \<le> n \<and> n \<le> 222 \<and> n \<noteq> 215) then char_of (n + 32) else c)"

definition js_toLowerCase :: "string \<Rightarrow> string" where
  "js_toLowerCase s = map lower_char s"

text \<open>\<^verbatim>\<open>s.includes(w)\<close>: \<open>w\<close> occurs in \<open>s\<close> as a contiguous substring.\<close>

fun is_prefix :: "string \<Rightarrow> string \<Rightarrow> bool" where
  "is_prefix [] s = True"
| "is_prefix (c # w) [] = False"
| "is_prefix (c # w) (d # s) = (c = d \<and> is_prefix w s)"

fun js_includes :: "string \<Rightarrow> string \<Rightarrow> bool" where
  "js_includes [] w = (w = [])"
| "js_includes (c # s) w = (is_prefix w (c # s) \<or> js_includes s w)"

section \<open>The tokenizing chunker (routes/upload.js)\<close>

text \<open>
  The tokenizer is the external \<open>tiktoken\<close> library: \<open>encoding_for_model\<close> gives an
  encoder or throws, \<open>encode\<close> gives the token ids or throws, \<open>decode\<close> gives a string
  or a byte array or throws. \<open>TextDecoder\<close> turns a byte array into a string, or throws
  (\<open>None\<close>). They are parameters of the model.
\<close>

datatype decoded = DString string | DBytes "nat list"

record encoder =
  encode :: "string \<Rightarrow> error + nat list"
  decode :: "nat list \<Rightarrow> error + decoded"

record runtime =
  encoding_for_model :: "string \<Rightarrow> error + encoder"
  utf8_decode :: "nat list \<Rightarrow> string option"

text \<open>The options object; \<open>None\<close> is a missing property.\<close>

record chunk_opts =
  chunkTokens :: "int option"
  overlapTokens :: "int option"
  model :: "string option"

text \<open>A chunk object \<^verbatim>\<open>{ text, page, chunkIndex }\<close>.\<close>

record chunk =
  chunk_text :: jsval
  chunk_page :: jsval
  chunkIndex :: jsval

text \<open>\<^verbatim>\<open>n || d\<close> on an optional number and \<^verbatim>\<open>s || d\<close> on an optional string.\<close>

fun num_or :: "int option \<Rightarrow> int \<Rightarrow> int" where
  "num_or None d = d"
| "num_or (Some n) d = (if n = 0 then d else n)"

fun str_or :: "string option \<Rightarrow> string \<Rightarrow> string" where
  "str_or None d = d"
| "str_or (Some s) d = (if s = [] then d else s)"

text \<open>The text of a decoded window: the string itself, or the bytes through
  \<open>TextDecoder\<close>, or \<^verbatim>\<open>String(decoded)\<close> (the bytes in decimal, joined by commas) when
  that throws.\<close>

definition decoded_text :: "(nat list \<Rightarrow> string option) \<Rightarrow> decoded \<Rightarrow> string" where
  "decoded_text utf8 d =
     (case d of
        DString s \<Rightarrow> s
      | DBytes bs \<Rightarrow> (case utf8 bs of Some s \<Rightarrow> s | None \<Rightarrow> js_join '','' (map show_nat bs)))"

text \<open>The \<^verbatim>\<open>while (start < tokens.length)\<close> loop of \<open>chunkTextByTokens\<close>, with its
  variables \<open>start\<close>, \<open>chunkIndex\<close> and \<open>chunks\<close> as arguments. The value \<open>None\<close> is a
  loop that never ends.\<close>

partial_function (option) chunk_loop ::
  "(nat list \<Rightarrow> string option) \<Rightarrow> encoder \<Rightarrow> nat list \<Rightarrow> int \<Rightarrow> int \<Rightarrow> int \<Rightarrow> int \<Rightarrow> chunk list
     \<Rightarrow> (error + chunk list) option" where
  "chunk_loop utf8 enc tokens chunkSize overlap start idx chunks =
     (if start < int (length tokens) then
        (let end = min (start + chunkSize) (int (length tokens));
             slice = js_slice tokens start end
         in case decode enc slice of
              Inl e \<Rightarrow> Some (Inl e)
            | Inr d \<Rightarrow>
               (let chunks' = chunks @ [\<lparr>chunk_text = JArr [JStr (decoded_text utf8 d)],
                                          chunk_page = JNull, chunkIndex = JNum idx\<rparr>]
                in if end = int (length tokens) then Some (Inr chunks')
                   else chunk_loop utf8 enc tokens chunkSize overlap
                          (if end - overlap < 0 then 0 else end - overlap) (idx + 1) chunks'))
      else Some (Inr chunks))"

declare chunk_loop.simps [code]

text \<open>\<open>chunkTextByTokens(rawText, opts)\<close>. The \<^verbatim>\<open>finally { encoder.free() }\<close> releases
  the encoder and has no effect on the result.\<close>

definition chunkTextByTokens :: "runtime \<Rightarrow> string \<Rightarrow> chunk_opts \<Rightarrow> (error + chunk list) option" where
  "chunkTextByTokens rt rawText opts =
     (case encoding_for_model rt (str_or (model opts) ''gpt-3.5-turbo'') of
        Inl e \<Rightarrow> Some (Inl e)
      | Inr enc \<Rightarrow>
         (case encode enc rawText of
            Inl e \<Rightarrow> Some (Inl e)
          | Inr tokens \<Rightarrow>
             (let chunkSize = max 1 (num_or (chunkTokens opts) 2000);
                  overlap = max 0 (num_or (overlapTokens opts) 0)
              in chunk_loop (utf8_decode rt) enc tokens chunkSize overlap 0 0 [])))"

text \<open>A tokenizer for concrete runs: one token for each character, decoded to a string.\<close>

definition char_encoder :: encoder where
  "char_encoder = \<lparr>encode = (\<lambda>s. Inr (map of_char s)), decode = (\<lambda>ts. Inr (DString (map char_of ts)))\<rparr>"

definition char_runtime :: runtime where
  "char_runtime = \<lparr>encoding_for_model = (\<lambda>m. Inr char_encoder), utf8_decode = (\<lambda>bs. Some (map char_of bs))\<rparr>"

section \<open>The embedding adapter (services/vector.js)\<close>

text \<open>
  The embedding backend is reached over HTTP. A request is a call of the primary endpoint
  \<^verbatim>\<open>/api/embed\<close> with its \<open>input\<close> array, or of the legacy endpoint
  \<^verbatim>\<open>/api/embeddings\<close> with its \<open>prompt\<close> string (the \<open>model\<close> field is the same
  constant in both and is left out). The backend is a parameter: given the requests made
  so far and the next one, it answers with a response, or the call throws (\<open>None\<close>).
  \<open>loggable\<close> says whether \<^verbatim>\<open>JSON.stringify(resp, null, 2)\<close> succeeds on the response
  object: the source logs the primary response that way inside the \<^verbatim>\<open>try\<close> block and
  a response object that cannot be serialised throws there. The response object of the
  HTTP client holds its request, whose parts refer to each other, so on a response of the
  real client the serialisation throws and \<open>loggable\<close> is \<open>False\<close>.
\<close>

datatype call = EmbedCall jsval | EmbeddingsCall string

record response =
  resp_data :: jsval
  loggable :: bool

type_synonym ollama = "call list \<Rightarrow> call \<Rightarrow> response option"

text \<open>The three-shape probe on \<open>resp.data\<close>, in the source's order. The source writes it
  out twice, once for each endpoint, with the same three tests.\<close>

definition probe_shapes :: "jsval \<Rightarrow> jsval option" where
  "probe_shapes d =
     (if is_array (js_get d ''embedding'') then Some (js_get d ''embedding'')
      else if is_array (js_get d ''embeddings'') then Some (js_first (js_get d ''embeddings''))
      else if is_array (js_get (js_get d ''data'') ''embeddings'')
        then Some (js_first (js_get (js_get d ''data'') ''embeddings''))
      else None)"

text \<open>The \<^verbatim>\<open>catch (e)\<close> block: one call of the legacy endpoint; whatever goes wrong in
  it is swallowed and control reaches the final \<^verbatim>\<open>throw\<close>.\<close>

definition legacy_embedding :: "ollama \<Rightarrow> jsval \<Rightarrow> call list \<Rightarrow> (error + jsval) \<times> call list" where
  "legacy_embedding net text made =
     (let c2 = EmbeddingsCall (js_String (js_or text (JStr [])))
      in case net made c2 of
           None \<Rightarrow> (Inl InvalidEmbeddingResponse, made @ [c2])
         | Some resp2 \<Rightarrow>
            (case probe_shapes (resp_data resp2) of
               Some v \<Rightarrow> (Inr v, made @ [c2])
             | None \<Rightarrow> (Inl InvalidEmbeddingResponse, made @ [c2])))"

text \<open>\<open>getEmbedding(text)\<close>, threading the list of requests made.\<close>

definition getEmbedding :: "ollama \<Rightarrow> jsval \<Rightarrow> call list \<Rightarrow> (error + jsval) \<times> call list" where
  "getEmbedding net text made =
     (let inputArray = (if is_array text then text else JArr [JStr (js_String (js_or text (JStr [])))]);
          c1 = EmbedCall inputArray
      in case net made c1 of
           None \<Rightarrow> legacy_embedding net text (made @ [c1])
         | Some resp \<Rightarrow>
            (if \<not> loggable resp then legacy_embedding net text (made @ [c1])
             else case probe_shapes (resp_data resp) of
                    Some v \<Rightarrow> (Inr v, made @ [c1])
                  | None \<Rightarrow> (Inl InvalidEmbeddingResponse, made @ [c1])))"

section \<open>The vector index (services/vector.js)\<close>

text \<open>
  The vector database is the external Qdrant service behind its client library. Its state
  is the list of collections (name and vector size) and the points of the one collection
  the service uses. Every request is logged. The source's module-level client handle only
  caches the connection and is not part of the state.
\<close>

record point =
  point_id :: string
  point_vector :: jsval
  payload :: jsobj

record search_result =
  result_id :: string
  score :: real
  result_payload :: jsobj

text \<open>A filter \<^verbatim>\<open>{ must: [ { key, match: { value } }, ... ] }\<close>.\<close>

type_synonym qfilter = "(string \<times> jsval) list"

datatype qrequest =
    GetCollections
  | CreateCollection string jsval
  | Upsert string "point list"
  | Search string jsval int qfilter

record world =
  calls :: "call list"
  requests :: "qrequest list"
  collections :: "(string \<times> jsval) list"
  points :: "point list"
  ids_drawn :: nat

text \<open>
  The environment of the service: the embedding backend; \<open>qdrant_up\<close>, which says whether
  the database serves a request in a state (an unreachable backend, or a request it
  rejects, makes the client throw); \<open>uuidv4\<close>, the source of fresh point ids; the
  similarity the database ranks by; and the configured collection name.
\<close>

record env =
  embed_backend :: ollama
  qdrant_up :: "world \<Rightarrow> qrequest \<Rightarrow> bool"
  uuidv4 :: "nat \<Rightarrow> string"
  similarity :: "jsval \<Rightarrow> jsval \<Rightarrow> real"
  QDRANT_COLLECTION :: string

text \<open>Modelled from the spec: the vector database backend, an external service whose code
  is not in the repository. A \<open>must\<close> condition \<^verbatim>\<open>{ key, match: { value } }\<close> holds of a
  point whose payload has the value under the key, or an array containing it. A search
  returns the points satisfying every condition, ranked by descending similarity to the
  query vector, at most \<open>limit\<close> of them. An upsert replaces the point with the same id
  or adds the point.\<close>

definition payload_matches :: "jsobj \<Rightarrow> string \<Rightarrow> jsval \<Rightarrow> bool" where
  "payload_matches pl k v =
     (case obj_lookup pl k of
        None \<Rightarrow> False
      | Some (JArr xs) \<Rightarrow> v \<in> set xs
      | Some x \<Rightarrow> x = v)"

definition qdrant_search ::
  "(jsval \<Rightarrow> jsval \<Rightarrow> real) \<Rightarrow> point list \<Rightarrow> jsval \<Rightarrow> int \<Rightarrow> qfilter \<Rightarrow> search_result list" where
  "qdrant_search sim pts qv limit must =
     take (nat limit)
       (sort_key (\<lambda>r. - score r)
          (map (\<lambda>p. \<lparr>result_id = point_id p, score = sim qv (point_vector p), result_payload = payload p\<rparr>)
             (filter (\<lambda>p. list_all (\<lambda>(k, v). payload_matches (payload p) k v) must) pts)))"

fun upsert_point :: "point \<Rightarrow> point list \<Rightarrow> point list" where
  "upsert_point p [] = [p]"
| "upsert_point p (q # qs) = (if point_id q = point_id p then p # qs else q # upsert_point p qs)"

definition qdrant_upsert :: "point list \<Rightarrow> point list \<Rightarrow> point list" where
  "qdrant_upsert new pts = fold upsert_point new pts"

text \<open>One request to the database: logged, then served or refused.\<close>

definition log_request :: "qrequest \<Rightarrow> world \<Rightarrow> world" where
  "log_request r w = w\<lparr>requests := requests w @ [r]\<rparr>"

text \<open>\<open>getEmbedding\<close> on the world: the requests made are the \<open>calls\<close> field.\<close>

definition embed :: "env \<Rightarrow> jsval \<Rightarrow> world \<Rightarrow> (error + jsval) \<times> world" where
  "embed ev text w =
     (case getEmbedding (embed_backend ev) text (calls w) of
        (r, made) \<Rightarrow> (r, w\<lparr>calls := made\<rparr>))"

text \<open>\<open>ensureCollection(vectorSize)\<close>\<close>

definition ensureCollection :: "env \<Rightarrow> jsval \<Rightarrow> world \<Rightarrow> (error + unit) \<times> world" where
  "ensureCollection ev vectorSize w =
     (if \<not> qdrant_up ev w GetCollections then (Inl BackendError, log_request GetCollections w)
      else
        (let w1 = log_request GetCollections w;
             exists = list_ex (\<lambda>col. fst col = QDRANT_COLLECTION ev) (collections w1)
         in if \<not> exists then
              (let req = CreateCollection (QDRANT_COLLECTION ev) vectorSize
               in if \<not> qdrant_up ev w1 req then (Inl BackendError, log_request req w1)
                  else (Inr (), (log_request req w1)
                          \<lparr>collections := collections w1 @ [(QDRANT_COLLECTION ev, vectorSize)]\<rparr>))
            else (Inr (), w1)))"

text \<open>The \<^verbatim>\<open>for\<close> loop of \<open>upsertChunks\<close> from index \<open>i\<close> on: the embedding of the
  first chunk is reused, every other chunk is embedded, and one point with a fresh id is
  pushed for each chunk. The payload is the object literal of the source: the four core
  fields, then the spread of \<open>baseMetadata\<close>.\<close>

fun build_points ::
  "env \<Rightarrow> string \<Rightarrow> jsobj \<Rightarrow> jsval \<Rightarrow> nat \<Rightarrow> chunk list \<Rightarrow> point list \<Rightarrow> world
     \<Rightarrow> (error + point list) \<times> world" where
  "build_points ev documentId baseMetadata firstEmbedding i [] pts w = (Inr pts, w)"
| "build_points ev documentId baseMetadata firstEmbedding i (c # rest) pts w =
     (case (if i = 0 then (Inr firstEmbedding, w) else embed ev (chunk_text c) w) of
        (Inl e, w1) \<Rightarrow> (Inl e, w1)
      | (Inr v, w1) \<Rightarrow>
          build_points ev documentId baseMetadata firstEmbedding (Suc i) rest
            (pts @ [\<lparr>point_id = uuidv4 ev (ids_drawn w1),
                      point_vector = v,
                      payload = obj_spread
                        [(''documentId'', JStr documentId),
                         (''text'', chunk_text c),
                         (''page'', js_or (chunk_page c) JNull),
                         (''chunkIndex'', chunkIndex c)]
                        baseMetadata\<rparr>])
            (w1\<lparr>ids_drawn := Suc (ids_drawn w1)\<rparr>))"

text \<open>\<open>upsertChunks(documentId, chunks, baseMetadata)\<close>; the result is the \<open>upserted\<close>
  count.\<close>

definition upsertChunks ::
  "env \<Rightarrow> string \<Rightarrow> chunk list \<Rightarrow> jsobj \<Rightarrow> world \<Rightarrow> (error + nat) \<times> world" where
  "upsertChunks ev documentId chunks baseMetadata w =
     (case chunks of
        [] \<Rightarrow> (Inr 0, w)
      | c0 # _ \<Rightarrow>
         (case embed ev (chunk_text c0) w of
            (Inl e, w1) \<Rightarrow> (Inl e, w1)
          | (Inr firstEmbedding, w1) \<Rightarrow>
             (case js_length firstEmbedding of
                Inl e \<Rightarrow> (Inl e, w1)
              | Inr n \<Rightarrow>
                 (case ensureCollection ev n w1 of
                    (Inl e, w2) \<Rightarrow> (Inl e, w2)
                  | (Inr u, w2) \<Rightarrow>
                     (case build_points ev documentId baseMetadata firstEmbedding 0 chunks [] w2 of
                        (Inl e, w3) \<Rightarrow> (Inl e, w3)
                      | (Inr pts, w3) \<Rightarrow>
                         (let req = Upsert (QDRANT_COLLECTION ev) pts
                          in if \<not> qdrant_up ev w3 req then (Inl BackendError, log_request req w3)
                             else (Inr (length pts),
                                   (log_request req w3)\<lparr>points := qdrant_upsert pts (points w3)\<rparr>)))))))"

text \<open>\<open>search(documentId, queryText, topK)\<close>\<close>

definition search ::
  "env \<Rightarrow> string \<Rightarrow> jsval \<Rightarrow> int \<Rightarrow> world \<Rightarrow> (error + search_result list) \<times> world" where
  "search ev documentId queryText topK w =
     (case embed ev queryText w of
        (Inl e, w1) \<Rightarrow> (Inl e, w1)
      | (Inr queryEmbedding, w1) \<Rightarrow>
         (case js_length queryEmbedding of
            Inl e \<Rightarrow> (Inl e, w1)
          | Inr n \<Rightarrow>
             (case ensureCollection ev n w1 of
                (Inl e, w2) \<Rightarrow> (Inl e, w2)
              | (Inr u, w2) \<Rightarrow>
                 (let must = [(''documentId'', JStr documentId)];
                      req = Search (QDRANT_COLLECTION ev) queryEmbedding topK must
                  in if \<not> qdrant_up ev w2 req then (Inl BackendError, log_request req w2)
                     else (Inr (qdrant_search (similarity ev) (points w2) queryEmbedding topK must),
                           log_request req w2)))))"

section \<open>The lexical fallback scorer and the context assembler (routes/chat.js)\<close>

text \<open>\<open>findRelevantChunks\<close>: its first statement computes the candidate sentences.\<close>

definition sentence_terminal :: "char \<Rightarrow> bool" where
  "sentence_terminal c = (c = CHR ''.'' \<or> c = CHR ''!'' \<or> c = CHR ''?'')"

definition sentences :: "string \<Rightarrow> string list" where
  "sentences content = filter (\<lambda>s. length (js_trim s) > 10) (js_split sentence_terminal content)"

definition overlap_score :: "string list \<Rightarrow> string \<Rightarrow> nat" where
  "overlap_score questionWords sentence =
     (let sentenceWords = js_split js_whitespace (js_toLowerCase sentence)
      in length (filter (\<lambda>word. list_ex (\<lambda>sw. js_includes sw word \<or> js_includes word sw) sentenceWords)
                   questionWords))"

text \<open>\<^verbatim>\<open>sort((a, b) => b.score - a.score)\<close> is a stable sort by descending score.\<close>

definition findRelevantChunks :: "string \<Rightarrow> string \<Rightarrow> int \<Rightarrow> string list" where
  "findRelevantChunks content question maxChunks =
     (let questionWords = js_split js_whitespace (js_toLowerCase question);
          scoredChunks = map (\<lambda>sentence. (sentence, overlap_score questionWords sentence)) (sentences content)
      in map (\<lambda>c. js_trim (fst c))
           (js_slice (sort_key (\<lambda>c. - int (snd c)) scoredChunks) 0 maxChunks))"

text \<open>The prompt sizing constants, read from the process environment.\<close>

record config =
  MAX_CONTEXT_CHUNKS :: int
  CONTEXT_CHARS_PER_CHUNK :: int
  HISTORY_MESSAGES :: int

record context_item =
  item_text :: jsval
  item_page :: jsval
  item_score :: jsval

record message =
  msg_role :: string
  msg_content :: string

text \<open>\<open>coerceToString(value)\<close>. \<^verbatim>\<open>JSON.stringify\<close> is a parameter; \<open>None\<close> is a
  serialisation that throws.\<close>

fun coerceToString :: "(jsval \<Rightarrow> string option) \<Rightarrow> jsval \<Rightarrow> string" where
  "coerceToString json (JStr s) = s"
| "coerceToString json JUndefined = []"
| "coerceToString json JNull = []"
| "coerceToString json (JArr vs) = js_join '' '' (map (coerceToString json) vs)"
| "coerceToString json (JObj kvs) = (case json (JObj kvs) of Some s \<Rightarrow> s | None \<Rightarrow> [])"
| "coerceToString json v = (let s = js_String v in if s = ''[object Object]'' then [] else s)"

text \<open>\<open>normalizedContext\<close> in the chat route. Every element is a string, so the
  \<^verbatim>\<open>typeof t === 'string'\<close> half of the filter always holds.\<close>

definition normalizedContext ::
  "config \<Rightarrow> (jsval \<Rightarrow> string option) \<Rightarrow> context_item list \<Rightarrow> string list" where
  "normalizedContext cfg json contextResults =
     filter (\<lambda>t. length t > 0)
       (map (\<lambda>c. js_slice (coerceToString json (item_text c)) 0 (CONTEXT_CHARS_PER_CHUNK cfg))
          (js_slice contextResults 0 (MAX_CONTEXT_CHUNKS cfg)))"

text \<open>The history that \<open>generateAIResponse\<close> splices into the messages.\<close>

definition recentHistory :: "config \<Rightarrow> message list \<Rightarrow> message list" where
  "recentHistory cfg conversationHistory =
     (if length conversationHistory > 0
      then js_slice_from conversationHistory (- HISTORY_MESSAGES cfg)
      else [])"

text \<open>The \<open>messages\<close> array of \<open>generateAIResponse\<close>: the system prompt, the recent
  history, then the user message with the joined context and the question.\<close>

definition build_messages :: "config \<Rightarrow> string \<Rightarrow> string \<Rightarrow> string list \<Rightarrow> message list \<Rightarrow> message list" where
  "build_messages cfg systemPrompt question context conversationHistory =
     (let contextText = js_join [CHR 0x0A, CHR 0x0A] context
      in [\<lparr>msg_role = ''system'', msg_content = systemPrompt\<rparr>]
         @ recentHistory cfg conversationHistory
         @ [\<lparr>msg_role = ''user'',
              msg_content = ''Document Context:'' @ [CHR 0x0A] @ contextText @ [CHR 0x0A, CHR 0x0A]
                        @ ''Question: '' @ question\<rparr>])"

section \<open>Concrete environments\<close>

text \<open>Small embedding backends, a database that serves every request, and an empty
  world, for running the functions above on concrete inputs.\<close>

fun is_upsert :: "qrequest \<Rightarrow> bool" where
  "is_upsert (Upsert name pts) = True"
| "is_upsert r = False"

text \<open>The primary endpoint is unreachable; the legacy endpoint answers
  \<^verbatim>\<open>{ embedding: [7, 8] }\<close>.\<close>

definition backend_primary_down :: ollama where
  "backend_primary_down made c =
     (case c of
        EmbedCall input \<Rightarrow> None
      | EmbeddingsCall prompt \<Rightarrow>
          Some \<lparr>resp_data = JObj [(''embedding'', JArr [JNum 7, JNum 8])], loggable = False\<rparr>)"

text \<open>The primary endpoint answers \<^verbatim>\<open>{ embedding: [1, 2] }\<close>, in a response object
  that cannot be serialised; the legacy endpoint is unreachable.\<close>

definition backend_legacy_down :: ollama where
  "backend_legacy_down made c =
     (case c of
        EmbedCall input \<Rightarrow>
          Some \<lparr>resp_data = JObj [(''embedding'', JArr [JNum 1, JNum 2])], loggable = False\<rparr>
      | EmbeddingsCall prompt \<Rightarrow> None)"

text \<open>Both endpoints answer with the vector \<^verbatim>\<open>[1, 2]\<close>, the primary one in the
  \<open>embeddings\<close> shape and the legacy one in the \<open>embedding\<close> shape, in response
  objects that cannot be serialised; both throw on the text \<^verbatim>\<open>bad\<close>.\<close>

definition backend_picky :: ollama where
  "backend_picky made c =
     (case c of
        EmbedCall input \<Rightarrow>
          (if input = JArr [JStr ''bad''] then None
           else Some \<lparr>resp_data = JObj [(''embeddings'', JArr [JArr [JNum 1, JNum 2]])], loggable = False\<rparr>)
      | EmbeddingsCall prompt \<Rightarrow>
          (if prompt = ''bad'' then None
           else Some \<lparr>resp_data = JObj [(''embedding'', JArr [JNum 1, JNum 2])], loggable = False\<rparr>))"

definition test_env :: env where
  "test_env = \<lparr>embed_backend = backend_picky, qdrant_up = (\<lambda>w r. True), uuidv4 = show_nat,
                similarity = (\<lambda>q v. 0), QDRANT_COLLECTION = ''pdf_chunks''\<rparr>"

definition empty_world :: world where
  "empty_world = \<lparr>calls = [], requests = [], collections = [], points = [], ids_drawn = 0\<rparr>"

definition text_chunk :: "string \<Rightarrow> int \<Rightarrow> chunk" where
  "text_chunk s i = \<lparr>chunk_text = JArr [JStr s], chunk_page = JNull, chunkIndex = JNum i\<rparr>"

text \<open>The world after document \<open>A\<close> has been indexed, and after \<open>B\<close> has been
  indexed as well, into the same collection.\<close>

definition world_with_A :: world where
  "world_with_A =
     snd (upsertChunks test_env ''A'' [text_chunk ''alpha'' 0] [(''filename'', JStr ''a.pdf'')] empty_world)"

definition two_doc_world :: world where
  "two_doc_world =
     snd (upsertChunks test_env ''B'' [text_chunk ''beta'' 0] [(''filename'', JStr ''b.pdf'')] world_with_A)"

section \<open>Properties of the chunker\<close>

subsection \<open>A partial-correctness rule for the loop\<close>

text \<open>Whatever the loop returns is covered by an invariant \<open>I\<close> of its variables that
  every iteration preserves: \<open>Q\<close> holds of the result at each of the three exits (the
  \<^verbatim>\<open>break\<close> after the last window, the loop condition, a decoder that throws).\<close>

lemma chunk_loop_rule:
  assumes run: "chunk_loop utf8 enc tokens chunkSize overlap start0 idx0 chunks0 = Some y"
    and init: "I start0 idx0 chunks0"
    and step: "\<And>start idx chunks d.
        I start idx chunks \<Longrightarrow> start < int (length tokens) \<Longrightarrow>
        decode enc (js_slice tokens start (min (start + chunkSize) (int (length tokens)))) = Inr d \<Longrightarrow>
        min (start + chunkSize) (int (length tokens)) \<noteq> int (length tokens) \<Longrightarrow>
        I (if min (start + chunkSize) (int (length tokens)) - overlap < 0 then 0
           else min (start + chunkSize) (int (length tokens)) - overlap)
          (idx + 1)
          (chunks @ [\<lparr>chunk_text = JArr [JStr (decoded_text utf8 d)], chunk_page = JNull,
                       chunkIndex = JNum idx\<rparr>])"
    and done_last: "\<And>start idx chunks d.
        I start idx chunks \<Longrightarrow> start < int (length tokens) \<Longrightarrow>
        decode enc (js_slice tokens start (min (start + chunkSize) (int (length tokens)))) = Inr d \<Longrightarrow>
        min (start + chunkSize) (int (length tokens)) = int (length tokens) \<Longrightarrow>
        Q (Inr (chunks @ [\<lparr>chunk_text = JArr [JStr (decoded_text utf8 d)], chunk_page = JNull,
                             chunkIndex = JNum idx\<rparr>]))"
    and done_exit: "\<And>start idx chunks. I start idx chunks \<Longrightarrow> \<not> start < int (length tokens) \<Longrightarrow> Q (Inr chunks)"
    and done_err: "\<And>start idx chunks e.
        I start idx chunks \<Longrightarrow> start < int (length tokens) \<Longrightarrow>
        decode enc (js_slice tokens start (min (start + chunkSize) (int (length tokens)))) = Inl e \<Longrightarrow>
        Q (Inl e)"
  shows "Q y"
proof -
  have "utf8 = utf8 \<and> enc = enc \<and> tokens = tokens \<and> chunkSize = chunkSize \<and> overlap = overlap
          \<and> I start0 idx0 chunks0 \<longrightarrow> Q y"
  proof (rule chunk_loop.raw_induct
      [where P = "\<lambda>u e t c ov s i cs r.
          u = utf8 \<and> e = enc \<and> t = tokens \<and> c = chunkSize \<and> ov = overlap \<and> I s i cs \<longrightarrow> Q r",
        OF _ run])
    fix loop :: "(nat list \<Rightarrow> string option) \<Rightarrow> encoder \<Rightarrow> nat list \<Rightarrow> int \<Rightarrow> int \<Rightarrow> int \<Rightarrow> int \<Rightarrow> chunk list
       \<Rightarrow> (error + chunk list) option"
    fix u e t c ov s i cs r
    assume IH: "\<And>u e t c ov s i cs r. loop u e t c ov s i cs = Some r \<Longrightarrow>
        u = utf8 \<and> e = enc \<and> t = tokens \<and> c = chunkSize \<and> ov = overlap \<and> I s i cs \<longrightarrow> Q r"
    assume body: "(if s < int (length t) then
        (let end = min (s + c) (int (length t));
             slice = js_slice t s end
         in case decode e slice of
              Inl e \<Rightarrow> Some (Inl e)
            | Inr d \<Rightarrow>
               (let chunks' = cs @ [\<lparr>chunk_text = JArr [JStr (decoded_text u d)],
                                          chunk_page = JNull, chunkIndex = JNum i\<rparr>]
                in if end = int (length t) then Some (Inr chunks')
                   else loop u e t c ov
                          (if end - ov < 0 then 0 else end - ov) (i + 1) chunks'))
      else Some (Inr cs)) = Some r"
    show "u = utf8 \<and> e = enc \<and> t = tokens \<and> c = chunkSize \<and> ov = overlap \<and> I s i cs \<longrightarrow> Q r"
    proof (intro impI, elim conjE)
      assume eqs: "u = utf8" "e = enc" "t = tokens" "c = chunkSize" "ov = overlap" and inv: "I s i cs"
      from body have body': "(if s < int (length tokens) then
        (let end = min (s + chunkSize) (int (length tokens));
             slice = js_slice tokens s end
         in case decode enc slice of
              Inl e \<Rightarrow> Some (Inl e)
            | Inr d \<Rightarrow>
               (let chunks' = cs @ [\<lparr>chunk_text = JArr [JStr (decoded_text utf8 d)],
                                          chunk_page = JNull, chunkIndex = JNum i\<rparr>]
                in if end = int (length tokens) then Some (Inr chunks')
                   else loop utf8 enc tokens chunkSize overlap
                          (if end - overlap < 0 then 0 else end - overlap) (i + 1) chunks'))
      else Some (Inr cs)) = Some r"
        unfolding eqs .
      show "Q r"
      proof (cases "s < int (length tokens)")
        case False
        with body' have "r = Inr cs" by simp
        with done_exit[OF inv False] show ?thesis by simp
      next
        case True
        let ?end = "min (s + chunkSize) (int (length tokens))"
        show ?thesis
        proof (cases "decode enc (js_slice tokens s ?end)")
          case (Inl err)
          with body' True have "r = Inl err"
            by (simp add: Let_def)
          with done_err[OF inv True Inl] show ?thesis by simp
        next
          case (Inr d)
          let ?cs = "cs @ [\<lparr>chunk_text = JArr [JStr (decoded_text utf8 d)], chunk_page = JNull,
                             chunkIndex = JNum i\<rparr>]"
          show ?thesis
          proof (cases "?end = int (length tokens)")
            case last: True
            with body' True Inr have "r = Inr ?cs"
              by (simp add: Let_def)
            with done_last[OF inv True Inr last] show ?thesis by simp
          next
            case more: False
            with body' True Inr have
              rec: "loop utf8 enc tokens chunkSize overlap
                      (if ?end - overlap < 0 then 0 else ?end - overlap) (i + 1) ?cs = Some r"
              by (simp only: Let_def if_True if_False sum.case)
            from IH[OF rec] step[OF inv True Inr more] show ?thesis by simp
          qed
        qed
      qed
    qed
  qed
  with init show ?thesis by simp
qed

lemma chunk_loop_diverges:
  assumes tot: "\<And>ts. \<exists>d. decode enc ts = Inr d"
    and s0: "0 \<le> start" and big: "start + chunkSize < int (length tokens)"
    and ov: "chunkSize \<le> overlap" and pos: "1 \<le> chunkSize"
  shows "chunk_loop utf8 enc tokens chunkSize overlap start idx chunks = None"
proof (cases "chunk_loop utf8 enc tokens chunkSize overlap start idx chunks")
  case None then show ?thesis .
next
  case (Some y)
  have False
  proof (rule chunk_loop_rule[OF Some,
        where I = "\<lambda>s i cs. 0 \<le> s \<and> s + chunkSize < int (length tokens)" and Q = "\<lambda>r. False"])
    show "0 \<le> start \<and> start + chunkSize < int (length tokens)" using s0 big by simp
  next
    fix s i cs d
    assume "0 \<le> s \<and> s + chunkSize < int (length tokens)"
    then show "0 \<le> (if min (s + chunkSize) (int (length tokens)) - overlap < 0 then 0
           else min (s + chunkSize) (int (length tokens)) - overlap) \<and>
       (if min (s + chunkSize) (int (length tokens)) - overlap < 0 then 0
           else min (s + chunkSize) (int (length tokens)) - overlap) + chunkSize < int (length tokens)"
      using ov pos by auto
  next
    fix s i cs d
    assume "0 \<le> s \<and> s + chunkSize < int (length tokens)"
      "min (s + chunkSize) (int (length tokens)) = int (length tokens)"
    then show False by simp
  next
    fix s i cs
    assume "0 \<le> s \<and> s + chunkSize < int (length tokens)" "\<not> s < int (length tokens)"
    then show False using pos by simp
  next
    fix s i cs e
    assume "decode enc (js_slice tokens s (min (s + chunkSize) (int (length tokens)))) = Inl e"
    with tot[of "js_slice tokens s (min (s + chunkSize) (int (length tokens)))"] show False by auto
  qed
  then show ?thesis ..
qed


subsection \<open>Unfolding the loop once\<close>

lemma chunk_loop_last:
  assumes "start < int (length tokens)" "int (length tokens) \<le> start + chunkSize"
    and "decode enc (js_slice tokens start (int (length tokens))) = Inr d"
  shows "chunk_loop utf8 enc tokens chunkSize overlap start idx chunks =
           Some (Inr (chunks @ [\<lparr>chunk_text = JArr [JStr (decoded_text utf8 d)], chunk_page = JNull,
                                   chunkIndex = JNum idx\<rparr>]))"
proof -
  from assms(2) have m: "min (start + chunkSize) (int (length tokens)) = int (length tokens)" by simp
  show ?thesis
    by (subst chunk_loop.simps) (simp add: assms(1,3) m Let_def)
qed

lemma chunk_loop_more:
  assumes "start + chunkSize < int (length tokens)" "0 \<le> start" "overlap < chunkSize" "0 \<le> overlap"
    and "decode enc (js_slice tokens start (start + chunkSize)) = Inr d"
  shows "chunk_loop utf8 enc tokens chunkSize overlap start idx chunks =
           chunk_loop utf8 enc tokens chunkSize overlap (start + chunkSize - overlap) (idx + 1)
             (chunks @ [\<lparr>chunk_text = JArr [JStr (decoded_text utf8 d)], chunk_page = JNull,
                           chunkIndex = JNum idx\<rparr>])"
proof -
  from assms have m: "min (start + chunkSize) (int (length tokens)) = start + chunkSize"
    and lt: "start < int (length tokens)" and ne: "start + chunkSize \<noteq> int (length tokens)"
    and nn: "\<not> start + chunkSize - overlap < 0" by auto
  show ?thesis
    by (subst chunk_loop.simps) (simp only: lt m ne nn assms(5) Let_def if_True if_False sum.case)
qed

lemma chunk_loop_count:
  assumes tot: "\<And>ts. \<exists>d. decode enc ts = Inr d"
    and ov: "0 \<le> overlap" "overlap < chunkSize"
  shows "0 \<le> start \<Longrightarrow> overlap < int (length tokens) - start \<Longrightarrow>
         \<exists>cs. chunk_loop utf8 enc tokens chunkSize overlap start idx chunks = Some (Inr (chunks @ cs))
            \<and> int (length cs) = - ((- (int (length tokens) - start - overlap)) div (chunkSize - overlap))"
proof (induction "nat (int (length tokens) - start)" arbitrary: start idx chunks rule: less_induct)
  case less
  let ?N = "int (length tokens)"
  let ?d = "chunkSize - overlap"
  from ov have dpos: "0 < ?d" by simp
  from less.prems ov have lt: "start < ?N" by simp
  show ?case
  proof (cases "?N \<le> start + chunkSize")
    case True
    from tot obtain d where d: "decode enc (js_slice tokens start ?N) = Inr d" by blast
    let ?c = "\<lparr>chunk_text = JArr [JStr (decoded_text utf8 d)], chunk_page = JNull, chunkIndex = JNum idx\<rparr>"
    have run: "chunk_loop utf8 enc tokens chunkSize overlap start idx chunks = Some (Inr (chunks @ [?c]))"
      by (rule chunk_loop_last[OF lt True d])
    let ?x = "?N - start - overlap"
    from less.prems True have x: "0 < ?x" "?x \<le> ?d" by simp_all
    have "(- ?x) div ?d = -1"
    proof -
      have "- ?x = ?d * (-1) + (?d - ?x)" by simp
      moreover have "0 \<le> ?d - ?x" "?d - ?x < ?d" using x by simp_all
      ultimately show ?thesis
        by (metis div_pos_pos_trivial add.commute div_mult_self2 dpos less_irrefl add_0)
    qed
    then have "- ((- ?x) div ?d) = 1" by simp
    with run show ?thesis by (intro exI[of _ "[?c]"]) simp
  next
    case False
    then have more: "start + chunkSize < ?N" by simp
    from tot obtain d where d: "decode enc (js_slice tokens start (start + chunkSize)) = Inr d" by blast
    let ?c = "\<lparr>chunk_text = JArr [JStr (decoded_text utf8 d)], chunk_page = JNull, chunkIndex = JNum idx\<rparr>"
    let ?s = "start + chunkSize - overlap"
    have step: "chunk_loop utf8 enc tokens chunkSize overlap start idx chunks =
                chunk_loop utf8 enc tokens chunkSize overlap ?s (idx + 1) (chunks @ [?c])"
      by (rule chunk_loop_more[OF more less.prems(1) ov(2) ov(1) d])
    have dec: "nat (?N - ?s) < nat (?N - start)" using dpos lt by simp
    have s0: "0 \<le> ?s" using less.prems(1) ov by simp
    have far: "overlap < ?N - ?s" using more by simp
    from less.hyps[OF dec s0 far, of "idx + 1" "chunks @ [?c]"] obtain cs where
      cs: "chunk_loop utf8 enc tokens chunkSize overlap ?s (idx + 1) (chunks @ [?c]) = Some (Inr ((chunks @ [?c]) @ cs))"
      and n: "int (length cs) = - ((- (?N - ?s - overlap)) div ?d)" by blast
    have "- (?N - ?s - overlap) = - (?N - start - overlap) + ?d" by simp
    then have "(- (?N - ?s - overlap)) div ?d = (- (?N - start - overlap)) div ?d + 1"
      using dpos by (simp only: div_add_self2)
    with n have "int (length (?c # cs)) = - ((- (?N - start - overlap)) div ?d)" by simp
    with step cs show ?thesis by (intro exI[of _ "?c # cs"]) simp
  qed
qed

lemma chunk_loop_terminates:
  assumes ov: "overlap < chunkSize" and ov0: "0 \<le> overlap"
  shows "0 \<le> start \<Longrightarrow> \<exists>y. chunk_loop utf8 enc tokens chunkSize overlap start idx chunks = Some y"
proof (induction "nat (int (length tokens) - start)" arbitrary: start idx chunks rule: less_induct)
  case less
  let ?N = "int (length tokens)"
  show ?case
  proof (cases "start < ?N")
    case False
    then show ?thesis by (subst chunk_loop.simps) simp
  next
    case lt: True
    let ?end = "min (start + chunkSize) ?N"
    show ?thesis
    proof (cases "decode enc (js_slice tokens start ?end)")
      case (Inl e)
      then show ?thesis by (subst chunk_loop.simps) (simp add: lt Let_def)
    next
      case (Inr d)
      show ?thesis
      proof (cases "?N \<le> start + chunkSize")
        case True
        then have "?end = ?N" by simp
        with Inr chunk_loop_last[OF lt True, of enc d utf8 overlap idx chunks] show ?thesis by simp
      next
        case False
        then have more: "start + chunkSize < ?N" by simp
        then have e: "?end = start + chunkSize" by simp
        let ?s = "start + chunkSize - overlap"
        have dec: "nat (?N - ?s) < nat (?N - start)" using ov lt by simp
        have s0: "0 \<le> ?s" using less.prems ov by simp
        from Inr e have d: "decode enc (js_slice tokens start (start + chunkSize)) = Inr d" by simp
        from less.hyps[OF dec s0] chunk_loop_more[OF more less.prems ov ov0 d, of utf8 idx chunks]
        show ?thesis by simp
      qed
    qed
  qed
qed

lemma neg_self_div:
  assumes "0 < (d::int)"
  shows "(- d) div d = - 1"
proof -
  have "(- d) div d = d div (- d)" using div_minus_minus[of d "- d"] by simp
  also have "\<dots> = - 1" by (rule div_pos_neg_trivial) (use assms in simp_all)
  finally show ?thesis .
qed

lemma ceiling_div_int: "0 < d \<Longrightarrow> \<lceil>real_of_int x / real_of_int d\<rceil> = - ((- x) div d)"
  by (simp add: ceiling_divide_eq_div)


lemma chunkTextByTokens_run:
  assumes "encoding_for_model rt (str_or (model opts) ''gpt-3.5-turbo'') = Inr enc"
    and "encode enc rawText = Inr tokens"
  shows "chunkTextByTokens rt rawText opts =
           chunk_loop (utf8_decode rt) enc tokens (max 1 (num_or (chunkTokens opts) 2000))
             (max 0 (num_or (overlapTokens opts) 0)) 0 0 []"
  unfolding chunkTextByTokens_def by (simp only: assms sum.case Let_def)

lemma chunkTextByTokens_cases:
  assumes "chunkTextByTokens rt rawText opts = Some (Inr chunks)"
  obtains enc tokens where "encoding_for_model rt (str_or (model opts) ''gpt-3.5-turbo'') = Inr enc"
    and "encode enc rawText = Inr tokens"
    and "chunk_loop (utf8_decode rt) enc tokens (max 1 (num_or (chunkTokens opts) 2000))
             (max 0 (num_or (overlapTokens opts) 0)) 0 0 [] = Some (Inr chunks)"
  using assms unfolding chunkTextByTokens_def
  by (auto simp: Let_def split: sum.splits)


lemma char_rt_simps:
  "encoding_for_model char_runtime m = Inr char_encoder"
  "utf8_decode char_runtime bs = Some (map char_of bs)"
  "encode char_encoder s = Inr (map of_char s)"
  "decode char_encoder ts = Inr (DString (map char_of ts))"
  by (simp_all add: char_runtime_def char_encoder_def)


text \<open>With an overlap below the window length the chunker returns on every input.
  With an overlap that reaches the window length, on a text of more tokens than one
  window and a decoder that does not throw, it never returns.\<close>

lemma chunkTextByTokens_terminates:
  assumes "max 0 (num_or (overlapTokens opts) 0) < max 1 (num_or (chunkTokens opts) 2000)"
  shows "\<exists>y. chunkTextByTokens rt rawText opts = Some y"
proof (cases "encoding_for_model rt (str_or (model opts) ''gpt-3.5-turbo'')")
  case (Inl e)
  then show ?thesis by (simp add: chunkTextByTokens_def)
next
  case enc: (Inr enc)
  show ?thesis
  proof (cases "encode enc rawText")
    case (Inl e)
    with enc show ?thesis by (simp add: chunkTextByTokens_def)
  next
    case (Inr tokens)
    from chunk_loop_terminates[OF assms, of 0 "utf8_decode rt" enc tokens 0 "[]"]
      chunkTextByTokens_run[OF enc Inr]
    show ?thesis by simp
  qed
qed

lemma chunkTextByTokens_diverges:
  assumes enc: "encoding_for_model rt (str_or (model opts) ''gpt-3.5-turbo'') = Inr enc"
    and toks: "encode enc rawText = Inr tokens"
    and tot: "\<And>ts. \<exists>d. decode enc ts = Inr d"
    and ov: "max 1 (num_or (chunkTokens opts) 2000) \<le> max 0 (num_or (overlapTokens opts) 0)"
    and long: "max 1 (num_or (chunkTokens opts) 2000) < int (length tokens)"
  shows "chunkTextByTokens rt rawText opts = None"
proof -
  have "chunk_loop (utf8_decode rt) enc tokens (max 1 (num_or (chunkTokens opts) 2000))
          (max 0 (num_or (overlapTokens opts) 0)) 0 0 [] = None"
    by (rule chunk_loop_diverges[OF tot _ _ ov]) (use long in simp_all)
  with chunkTextByTokens_run[OF enc toks] show ?thesis by simp
qed

subsection \<open>Termination\<close>

text \<open>Claim C2: chunkTextByTokens terminates for every input text and every configuration,
  because the step of the window is clamped to at least 1. The source has no such clamp:
  the next start is \<^verbatim>\<open>end - overlap\<close>, clamped at 0 only. On a text of three tokens
  with \<open>chunkTokens = 1\<close> and \<open>overlapTokens = 1\<close> the start stays at 0 and the
  chunker never returns.\<close>

theorem chunker_never_returns:
  "chunkTextByTokens char_runtime ''abc'' \<lparr>chunkTokens = Some 1, overlapTokens = Some 1, model = None\<rparr>
     = None"
  by (rule chunkTextByTokens_diverges[where enc = char_encoder and tokens = "map of_char ''abc''"])
     (simp_all add: char_rt_simps)

subsection \<open>The number of chunks\<close>

text \<open>Claim C4, as stated: with \<open>O < C\<close> a non-empty text of \<open>N\<close> tokens gives
  \<open>ceil(max(N - O, 0) / (C - O))\<close> chunks, and \<open>N \<le> C\<close> gives one chunk. For
  \<open>0 < N \<le> O\<close> the formula is 0 while the chunker emits one chunk: one token with
  \<open>C = 3\<close> and \<open>O = 2\<close>.\<close>

theorem chunk_count_counterexample:
  "chunkTextByTokens char_runtime ''a'' \<lparr>chunkTokens = Some 3, overlapTokens = Some 2, model = None\<rparr>
     = Some (Inr [\<lparr>chunk_text = JArr [JStr ''a''], chunk_page = JNull, chunkIndex = JNum 0\<rparr>])
   \<and> \<lceil>real_of_int (max (int (length ''a'') - 2) 0) / real_of_int (3 - 2)\<rceil> = (0::int)"
proof
  show "chunkTextByTokens char_runtime ''a'' \<lparr>chunkTokens = Some 3, overlapTokens = Some 2, model = None\<rparr>
     = Some (Inr [\<lparr>chunk_text = JArr [JStr ''a''], chunk_page = JNull, chunkIndex = JNum 0\<rparr>])"
    by code_simp
  show "\<lceil>real_of_int (max (int (length ''a'') - 2) 0) / real_of_int (3 - 2)\<rceil> = (0::int)"
    by simp
qed

text \<open>Claim C4, amended: for \<open>0 \<le> O < C\<close>, a text of \<open>N \<ge> 1\<close> tokens and a tokenizer
  that does not throw, the chunker returns \<open>max(1, ceil(max(N - O, 0) / (C - O)))\<close>
  chunks; in particular \<open>N \<le> C\<close> gives exactly one chunk.\<close>

theorem chunk_count_amended:
  assumes enc: "encoding_for_model rt (str_or m ''gpt-3.5-turbo'') = Inr enc"
    and toks: "encode enc rawText = Inr tokens"
    and tot: "\<And>ts. \<exists>d. decode enc ts = Inr d"
    and ne: "tokens \<noteq> []"
    and ov: "0 \<le> ov" "ov < C"
  shows "\<exists>chunks. chunkTextByTokens rt rawText \<lparr>chunkTokens = Some C, overlapTokens = Some ov, model = m\<rparr>
             = Some (Inr chunks)
          \<and> int (length chunks) = max 1 \<lceil>real_of_int (max (int (length tokens) - ov) 0) / real_of_int (C - ov)\<rceil>
          \<and> (int (length tokens) \<le> C \<longrightarrow> length chunks = 1)"
proof -
  let ?N = "int (length tokens)"
  from ov have cs: "max 1 (num_or (Some C) 2000) = C" and os: "max 0 (num_or (Some ov) 0) = ov" by auto
  have unfold: "chunkTextByTokens rt rawText \<lparr>chunkTokens = Some C, overlapTokens = Some ov, model = m\<rparr>
      = chunk_loop (utf8_decode rt) enc tokens C ov 0 0 []"
    unfolding chunkTextByTokens_def by (simp only: chunk_opts.simps enc toks sum.case cs os Let_def)
  from ov have dpos: "0 < C - ov" by simp
  from ne have Npos: "0 < ?N" by simp
  show ?thesis
  proof (cases "ov < ?N")
    case True
    from chunk_loop_count[OF tot ov, of 0 tokens "utf8_decode rt" 0 "[]"] True
    obtain chunks where run: "chunk_loop (utf8_decode rt) enc tokens C ov 0 0 [] = Some (Inr chunks)"
      and n: "int (length chunks) = - ((- (?N - ov)) div (C - ov))" by auto
    from True have mx: "max (?N - ov) 0 = ?N - ov" by simp
    have ceil: "\<lceil>real_of_int (?N - ov) / real_of_int (C - ov)\<rceil> = int (length chunks)"
      using ceiling_div_int[OF dpos, of "?N - ov"] n by simp
    have "(- (?N - ov)) div (C - ov) < 0"
      using True dpos by (simp add: pos_imp_zdiv_neg_iff)
    with n have pos: "1 \<le> int (length chunks)" by simp
    have one: "?N \<le> C \<longrightarrow> length chunks = 1"
    proof
      assume le: "?N \<le> C"
      then have "- (C - ov) \<le> - (?N - ov)" by simp
      from zdiv_mono1[OF this dpos] have "(- (C - ov)) div (C - ov) \<le> (- (?N - ov)) div (C - ov)" .
      moreover have "(- (C - ov)) div (C - ov) = - 1" by (rule neg_self_div[OF dpos])
      ultimately have "- 1 \<le> (- (?N - ov)) div (C - ov)" by simp
      with n pos show "length chunks = 1" by simp
    qed
    from run ceil pos one show ?thesis unfolding unfold mx by (intro exI[of _ chunks]) simp
  next
    case False
    with ov have le: "?N \<le> 0 + C" by simp
    from tot obtain d where d: "decode enc (js_slice tokens 0 ?N) = Inr d" by blast
    have run: "chunk_loop (utf8_decode rt) enc tokens C ov 0 0 [] =
        Some (Inr ([] @ [\<lparr>chunk_text = JArr [JStr (decoded_text (utf8_decode rt) d)], chunk_page = JNull,
                                   chunkIndex = JNum 0\<rparr>]))"
      by (rule chunk_loop_last[OF Npos le d])
    from False have mx: "max (?N - ov) 0 = 0" by simp
    show ?thesis unfolding unfold mx run by simp
  qed
qed

theorem chunk_count_amended_witness:
  "map_option (map_sum id length)
     (chunkTextByTokens char_runtime ''abcde'' \<lparr>chunkTokens = Some 2, overlapTokens = Some 1, model = None\<rparr>)
     = Some (Inr 4)"
proof -
  have "\<exists>chunks. chunkTextByTokens char_runtime ''abcde''
            \<lparr>chunkTokens = Some 2, overlapTokens = Some 1, model = None\<rparr> = Some (Inr chunks)
          \<and> int (length chunks) =
              max 1 \<lceil>real_of_int (max (int (length (map of_char ''abcde'' :: nat list)) - 1) 0) / real_of_int (2 - 1)\<rceil>
          \<and> (int (length (map of_char ''abcde'' :: nat list)) \<le> 2 \<longrightarrow> length chunks = 1)"
    by (rule chunk_count_amended[where enc = char_encoder]) (simp_all add: char_rt_simps)
  then obtain chunks where
    "chunkTextByTokens char_runtime ''abcde''
        \<lparr>chunkTokens = Some 2, overlapTokens = Some 1, model = None\<rparr> = Some (Inr chunks)"
    and "int (length chunks) = 4" by auto
  then show ?thesis by simp
qed

subsection \<open>The shape of a chunk\<close>

text \<open>Claim C6, as stated: every chunk is \<^verbatim>\<open>{ chunkIndex: int, text: string, page: int|null }\<close>
  with the text a string. The source stores the text as an array holding the one string
  (\<^verbatim>\<open>text: [text]\<close>), so the text field is not a string.\<close>

theorem chunk_text_is_array:
  "chunkTextByTokens char_runtime ''ab'' \<lparr>chunkTokens = Some 2, overlapTokens = Some 0, model = None\<rparr>
     = Some (Inr [\<lparr>chunk_text = JArr [JStr ''ab''], chunk_page = JNull, chunkIndex = JNum 0\<rparr>])
   \<and> \<not> is_string (JArr [JStr ''ab''])"
proof
  show "chunkTextByTokens char_runtime ''ab'' \<lparr>chunkTokens = Some 2, overlapTokens = Some 0, model = None\<rparr>
     = Some (Inr [\<lparr>chunk_text = JArr [JStr ''ab''], chunk_page = JNull, chunkIndex = JNum 0\<rparr>])"
    by code_simp
  show "\<not> is_string (JArr [JStr ''ab''])" by simp
qed

text \<open>Claim C6, amended: in every list of chunks the chunker returns, the chunk at
  position \<open>i\<close> has \<open>chunkIndex = i\<close> (counting from 0), \<open>page = null\<close>, and as
  \<open>text\<close> a one-element array holding the string decoded from a slice of the token
  sequence.\<close>

theorem chunk_shape:
  assumes run: "chunkTextByTokens rt rawText opts = Some (Inr chunks)"
  shows "\<exists>enc tokens.
           encoding_for_model rt (str_or (model opts) ''gpt-3.5-turbo'') = Inr enc
         \<and> encode enc rawText = Inr tokens
         \<and> (\<forall>i < length chunks. \<exists>a b d.
               decode enc (js_slice tokens a b) = Inr d
             \<and> chunks ! i = \<lparr>chunk_text = JArr [JStr (decoded_text (utf8_decode rt) d)],
                             chunk_page = JNull, chunkIndex = JNum (int i)\<rparr>)"
proof -
  from run obtain enc tokens where enc: "encoding_for_model rt (str_or (model opts) ''gpt-3.5-turbo'') = Inr enc"
    and toks: "encode enc rawText = Inr tokens"
    and loop: "chunk_loop (utf8_decode rt) enc tokens (max 1 (num_or (chunkTokens opts) 2000))
             (max 0 (num_or (overlapTokens opts) 0)) 0 0 [] = Some (Inr chunks)"
    by (rule chunkTextByTokens_cases)
  let ?good = "\<lambda>cs. \<forall>i < length cs. \<exists>a b d.
               decode enc (js_slice tokens a b) = Inr d
             \<and> cs ! i = \<lparr>chunk_text = JArr [JStr (decoded_text (utf8_decode rt) d)],
                         chunk_page = JNull, chunkIndex = JNum (int i)\<rparr>"
  have ext: "?good (cs @ [\<lparr>chunk_text = JArr [JStr (decoded_text (utf8_decode rt) d)],
                         chunk_page = JNull, chunkIndex = JNum (int (length cs))\<rparr>])"
    if "?good cs" "decode enc (js_slice tokens a b) = Inr d" for cs a b d
  proof (intro allI impI)
    fix i assume "i < length (cs @ [\<lparr>chunk_text = JArr [JStr (decoded_text (utf8_decode rt) d)],
                         chunk_page = JNull, chunkIndex = JNum (int (length cs))\<rparr>])"
    then consider "i < length cs" | "i = length cs" by fastforce
    then show "\<exists>a b da. decode enc (js_slice tokens a b) = Inr da \<and>
        (cs @ [\<lparr>chunk_text = JArr [JStr (decoded_text (utf8_decode rt) d)],
                         chunk_page = JNull, chunkIndex = JNum (int (length cs))\<rparr>]) ! i =
          \<lparr>chunk_text = JArr [JStr (decoded_text (utf8_decode rt) da)],
                         chunk_page = JNull, chunkIndex = JNum (int i)\<rparr>"
    proof cases
      case 1
      with that(1) show ?thesis by (simp add: nth_append)
    next
      case 2
      with that(2) show ?thesis by (auto simp: nth_append)
    qed
  qed
  have "\<forall>cs. Inr chunks = (Inr cs :: error + chunk list) \<longrightarrow> ?good cs"
  proof (rule chunk_loop_rule[OF loop,
        where I = "\<lambda>s i cs. i = int (length cs) \<and> ?good cs"
          and Q = "\<lambda>r. \<forall>cs. r = Inr cs \<longrightarrow> ?good cs"])
    show "0 = int (length ([]::chunk list)) \<and> ?good []" by simp
  next
    fix s i cs d
    assume "i = int (length cs) \<and> ?good cs"
      and "decode enc (js_slice tokens s (min (s + max 1 (num_or (chunkTokens opts) 2000)) (int (length tokens)))) = Inr d"
    then show "i + 1 = int (length (cs @ [\<lparr>chunk_text = JArr [JStr (decoded_text (utf8_decode rt) d)],
                         chunk_page = JNull, chunkIndex = JNum i\<rparr>]))
        \<and> ?good (cs @ [\<lparr>chunk_text = JArr [JStr (decoded_text (utf8_decode rt) d)],
                         chunk_page = JNull, chunkIndex = JNum i\<rparr>])"
      using ext by simp
  next
    fix s i cs d
    assume "i = int (length cs) \<and> ?good cs"
      and "decode enc (js_slice tokens s (min (s + max 1 (num_or (chunkTokens opts) 2000)) (int (length tokens)))) = Inr d"
    then show "\<forall>cs'. Inr (cs @ [\<lparr>chunk_text = JArr [JStr (decoded_text (utf8_decode rt) d)],
                         chunk_page = JNull, chunkIndex = JNum i\<rparr>]) = Inr cs' \<longrightarrow> ?good cs'"
      using ext by simp
  next
    fix s i cs
    assume "i = int (length cs) \<and> ?good cs"
    then show "\<forall>cs'. Inr cs = Inr cs' \<longrightarrow> ?good cs'" by simp
  next
    fix e :: error
    show "\<forall>cs'. Inl e = Inr cs' \<longrightarrow> ?good cs'" by simp
  qed
  then have "?good chunks" by simp
  with enc toks show ?thesis by blast
qed


theorem chunk_shape_witness:
  "chunkTextByTokens char_runtime ''abc'' \<lparr>chunkTokens = Some 2, overlapTokens = Some 1, model = None\<rparr>
     = Some (Inr [\<lparr>chunk_text = JArr [JStr ''ab''], chunk_page = JNull, chunkIndex = JNum 0\<rparr>,
                  \<lparr>chunk_text = JArr [JStr ''bc''], chunk_page = JNull, chunkIndex = JNum 1\<rparr>])
   \<and> chunkIndex ([\<lparr>chunk_text = JArr [JStr ''ab''], chunk_page = JNull, chunkIndex = JNum 0\<rparr>,
                   \<lparr>chunk_text = JArr [JStr ''bc''], chunk_page = JNull, chunkIndex = JNum 1\<rparr>] ! 1)
       = JNum 1"
proof -
  let ?cs = "[\<lparr>chunk_text = JArr [JStr ''ab''], chunk_page = JNull, chunkIndex = JNum 0\<rparr>,
              \<lparr>chunk_text = JArr [JStr ''bc''], chunk_page = JNull, chunkIndex = JNum 1\<rparr>]"
  have run: "chunkTextByTokens char_runtime ''abc''
      \<lparr>chunkTokens = Some 2, overlapTokens = Some 1, model = None\<rparr> = Some (Inr ?cs)"
    by code_simp
  have lt: "(1::nat) < length ?cs" by simp
  from chunk_shape[OF run] have "chunkIndex (?cs ! 1) = JNum 1"
  proof (elim exE conjE)
    fix enc tokens
    assume "\<forall>i < length ?cs. \<exists>a b d.
               decode enc (js_slice tokens a b) = Inr d
             \<and> ?cs ! i = \<lparr>chunk_text = JArr [JStr (decoded_text (utf8_decode char_runtime) d)],
                          chunk_page = JNull, chunkIndex = JNum (int i)\<rparr>"
    from this[rule_format, OF lt] show "chunkIndex (?cs ! 1) = JNum 1"
      by (elim exE conjE) simp
  qed
  with run show ?thesis by (intro conjI)
qed

subsection \<open>A non-positive window length\<close>

text \<open>Claim C7, as stated: a non-positive \<open>chunkTokens\<close> fails with a ChunkingError
  rather than producing chunks. The source replaces it: \<^verbatim>\<open>opts.chunkTokens || 2000\<close>
  turns 0 into 2000 and \<^verbatim>\<open>Math.max(1, ...)\<close> turns a negative value into 1. With
  \<open>chunkTokens = -5\<close> a text of three tokens gives three chunks.\<close>

theorem nonpositive_chunkTokens_counterexample:
  "chunkTextByTokens char_runtime ''abc'' \<lparr>chunkTokens = Some (- 5), overlapTokens = None, model = None\<rparr>
   = Some (Inr [\<lparr>chunk_text = JArr [JStr ''a''], chunk_page = JNull, chunkIndex = JNum 0\<rparr>,
                \<lparr>chunk_text = JArr [JStr ''b''], chunk_page = JNull, chunkIndex = JNum 1\<rparr>,
                \<lparr>chunk_text = JArr [JStr ''c''], chunk_page = JNull, chunkIndex = JNum 2\<rparr>])"
  by code_simp

text \<open>Claim C7, amended: a non-positive \<open>chunkTokens\<close> is not rejected. The chunker
  behaves as with \<open>chunkTokens = 2000\<close> when the value is 0 and as with
  \<open>chunkTokens = 1\<close> when it is negative, and with a tokenizer that does not throw it
  returns no error.\<close>

theorem nonpositive_chunkTokens_clamped:
  assumes "C \<le> 0"
    and enc: "encoding_for_model rt (str_or m ''gpt-3.5-turbo'') = Inr enc"
    and toks: "encode enc rawText = Inr tokens"
    and tot: "\<And>ts. \<exists>d. decode enc ts = Inr d"
  shows "chunkTextByTokens rt rawText \<lparr>chunkTokens = Some C, overlapTokens = ov, model = m\<rparr>
           = chunkTextByTokens rt rawText
               \<lparr>chunkTokens = Some (if C = 0 then 2000 else 1), overlapTokens = ov, model = m\<rparr>
       \<and> (\<forall>e. chunkTextByTokens rt rawText \<lparr>chunkTokens = Some C, overlapTokens = ov, model = m\<rparr>
                \<noteq> Some (Inl e))"
proof
  from assms(1) have "max 1 (num_or (Some C) 2000) = max 1 (num_or (Some (if C = 0 then 2000 else 1)) 2000)"
    by simp
  then show "chunkTextByTokens rt rawText \<lparr>chunkTokens = Some C, overlapTokens = ov, model = m\<rparr>
           = chunkTextByTokens rt rawText
               \<lparr>chunkTokens = Some (if C = 0 then 2000 else 1), overlapTokens = ov, model = m\<rparr>"
    unfolding chunkTextByTokens_def by (simp only: chunk_opts.simps)
next
  let ?opts = "\<lparr>chunkTokens = Some C, overlapTokens = ov, model = m\<rparr>"
  show "\<forall>e. chunkTextByTokens rt rawText ?opts \<noteq> Some (Inl e)"
  proof (intro allI notI)
    fix e assume "chunkTextByTokens rt rawText ?opts = Some (Inl e)"
    with chunkTextByTokens_run[of rt ?opts enc rawText tokens] enc toks
    have loop: "chunk_loop (utf8_decode rt) enc tokens (max 1 (num_or (chunkTokens ?opts) 2000))
             (max 0 (num_or (overlapTokens ?opts) 0)) 0 0 [] = Some (Inl e)" by simp
    have "\<exists>cs. (Inl e :: error + chunk list) = Inr cs"
    proof (rule chunk_loop_rule[OF loop, where I = "\<lambda>s i cs. True" and Q = "\<lambda>r. \<exists>cs. r = Inr cs"])
      fix s e'
      assume "decode enc (js_slice tokens s (min (s + max 1 (num_or (chunkTokens ?opts) 2000)) (int (length tokens)))) = Inl e'"
      with tot[of "js_slice tokens s (min (s + max 1 (num_or (chunkTokens ?opts) 2000)) (int (length tokens)))"]
      show "\<exists>cs. (Inl e' :: error + chunk list) = Inr cs" by simp
    qed simp_all
    then show False by simp
  qed
qed


theorem nonpositive_chunkTokens_clamped_witness:
  "(- 5 :: int) \<le> 0
   \<and> chunkTextByTokens char_runtime ''abc'' \<lparr>chunkTokens = Some (- 5), overlapTokens = None, model = None\<rparr>
       = chunkTextByTokens char_runtime ''abc'' \<lparr>chunkTokens = Some 1, overlapTokens = None, model = None\<rparr>
   \<and> chunkTextByTokens char_runtime ''abc'' \<lparr>chunkTokens = Some (- 5), overlapTokens = None, model = None\<rparr>
       \<noteq> Some (Inl TokenizerError)"
proof -
  have neg: "(- 5 :: int) \<le> 0" by simp
  have one: "(if (- 5 :: int) = 0 then 2000 else 1) = (1::int)" by simp
  have "chunkTextByTokens char_runtime ''abc'' \<lparr>chunkTokens = Some (- 5), overlapTokens = None, model = None\<rparr>
           = chunkTextByTokens char_runtime ''abc''
               \<lparr>chunkTokens = Some (if (- 5 :: int) = 0 then 2000 else 1), overlapTokens = None, model = None\<rparr>
       \<and> (\<forall>e. chunkTextByTokens char_runtime ''abc''
                  \<lparr>chunkTokens = Some (- 5), overlapTokens = None, model = None\<rparr> \<noteq> Some (Inl e))"
    by (rule nonpositive_chunkTokens_clamped[OF neg, where enc = char_encoder])
       (simp_all add: char_rt_simps)
  from this[unfolded one] neg show ?thesis by blast
qed

section \<open>Properties of the embedding adapter\<close>

text \<open>When the primary call throws, or its response cannot be logged, the result is that
  of the \<^verbatim>\<open>catch\<close> block: one call of the legacy endpoint with the single string
  \<^verbatim>\<open>String(text || '')\<close>, then the three-shape probe on its response.\<close>

lemma getEmbedding_legacy_path:
  assumes "net made (EmbedCall (if is_array text then text
                                else JArr [JStr (js_String (js_or text (JStr [])))])) = None
         \<or> (\<exists>resp. net made (EmbedCall (if is_array text then text
                                else JArr [JStr (js_String (js_or text (JStr [])))])) = Some resp
                  \<and> \<not> loggable resp)"
  shows "getEmbedding net text made =
           legacy_embedding net text
             (made @ [EmbedCall (if is_array text then text
                                 else JArr [JStr (js_String (js_or text (JStr [])))])])"
  using assms by (auto simp: getEmbedding_def Let_def)

lemma legacy_embedding_result:
  "legacy_embedding net text made =
     ((case net made (EmbeddingsCall (js_String (js_or text (JStr [])))) of
         None \<Rightarrow> Inl InvalidEmbeddingResponse
       | Some resp2 \<Rightarrow> (case probe_shapes (resp_data resp2) of
                          Some v \<Rightarrow> Inr v
                        | None \<Rightarrow> Inl InvalidEmbeddingResponse)),
      made @ [EmbeddingsCall (js_String (js_or text (JStr [])))])"
  by (simp add: legacy_embedding_def Let_def split: option.splits)

lemma getEmbedding_primary_down_example:
  "getEmbedding backend_primary_down (JStr ''hi'') []
     = (Inr (JArr [JNum 7, JNum 8]), [EmbedCall (JArr [JStr ''hi'']), EmbeddingsCall ''hi''])"
  by (simp add: getEmbedding_def legacy_embedding_def backend_primary_down_def probe_shapes_def
        js_or_def obj_lookup_def)

text \<open>Claim C3: getEmbedding goes to the legacy endpoint when the primary call throws or
  its response matches none of the three shapes, and throws only after both endpoints
  fail to yield a vector. The source logs the primary response with
  \<^verbatim>\<open>JSON.stringify(resp, null, 2)\<close> inside the \<^verbatim>\<open>try\<close> block, before the probe.
  On the response object of the HTTP client that line throws, so the probe of the primary
  response is not reached and its vector is discarded: with a primary endpoint that
  answers \<^verbatim>\<open>{ embedding: [1, 2] }\<close> and a legacy endpoint that is down, getEmbedding
  throws although the primary endpoint yielded a vector.\<close>

theorem getEmbedding_discards_primary_vector:
  "backend_legacy_down [] (EmbedCall (JArr [JStr ''hi'']))
     = Some \<lparr>resp_data = JObj [(''embedding'', JArr [JNum 1, JNum 2])], loggable = False\<rparr>
   \<and> probe_shapes (JObj [(''embedding'', JArr [JNum 1, JNum 2])]) = Some (JArr [JNum 1, JNum 2])
   \<and> getEmbedding backend_legacy_down (JStr ''hi'') []
       = (Inl InvalidEmbeddingResponse, [EmbedCall (JArr [JStr ''hi'']), EmbeddingsCall ''hi''])"
  by (simp add: getEmbedding_def legacy_embedding_def backend_legacy_down_def probe_shapes_def
        js_or_def obj_lookup_def)

section \<open>Properties of the vector index\<close>

subsection \<open>Objects\<close>

lemma obj_lookup_set: "obj_lookup (obj_set k v obj) k' = (if k' = k then Some v else obj_lookup obj k')"
  by (induction obj) (auto simp: obj_lookup_def)

lemma set_own_keys: "set (own_keys obj) = fst ` set obj"
  by (simp add: own_keys_def)

lemma obj_lookup_fold_set:
  "obj_lookup (fold (\<lambda>k acc. case obj_lookup src k of Some v \<Rightarrow> obj_set k v acc | None \<Rightarrow> acc) ks target) k
     = (if k \<in> set ks \<and> obj_lookup src k \<noteq> None then obj_lookup src k else obj_lookup target k)"
proof (induction ks arbitrary: target)
  case Nil
  show ?case by simp
next
  case (Cons a ks)
  show ?case
    by (cases "obj_lookup src a") (auto simp: Cons.IH obj_lookup_set)
qed

lemma obj_lookup_spread:
  "obj_lookup (obj_spread target src) k
     = (case obj_lookup src k of Some v \<Rightarrow> Some v | None \<Rightarrow> obj_lookup target k)"
proof (cases "obj_lookup src k")
  case None
  then show ?thesis by (simp add: obj_spread_def obj_lookup_fold_set)
next
  case (Some v)
  then have "k \<in> fst ` set src" by (auto simp: obj_lookup_def dest: map_of_SomeD intro: rev_image_eqI)
  with Some show ?thesis by (simp add: obj_spread_def obj_lookup_fold_set set_own_keys)
qed

subsection \<open>What each operation leaves alone\<close>

lemma embed_frame:
  assumes "embed ev text w = (r, w1)"
  shows "points w1 = points w" "requests w1 = requests w" "collections w1 = collections w"
    "ids_drawn w1 = ids_drawn w"
  using assms by (auto simp: embed_def split: prod.splits)

lemma embed_error:
  assumes "embed ev text w = (Inl e, w1)"
  shows "e = InvalidEmbeddingResponse"
  using assms
  by (auto simp: embed_def getEmbedding_def legacy_embedding_def Let_def
      split: prod.splits option.splits if_splits)

lemma ensureCollection_frame:
  assumes "ensureCollection ev n w = (r, w1)"
  shows "points w1 = points w" "filter is_upsert (requests w1) = filter is_upsert (requests w)"
  using assms by (auto simp: ensureCollection_def log_request_def Let_def split: if_splits)

lemma ensureCollection_error:
  assumes "ensureCollection ev n w = (Inl e, w1)"
  shows "e = BackendError"
  using assms by (auto simp: ensureCollection_def log_request_def Let_def split: if_splits)

lemma build_points_frame:
  assumes "build_points ev documentId baseMetadata first i chunks pts w = (r, w1)"
  shows "points w1 = points w \<and> requests w1 = requests w"
  using assms
proof (induction chunks arbitrary: i pts w)
  case Nil
  then show ?case by simp
next
  case (Cons c rest)
  obtain r0 w0 where e: "(if i = 0 then (Inr first, w) else embed ev (chunk_text c) w) = (r0, w0)"
    by (cases "(if i = 0 then (Inr first, w) else embed ev (chunk_text c) w)")
  then have fr: "points w0 = points w" "requests w0 = requests w"
    by (auto split: if_splits dest: embed_frame)
  show ?case
  proof (cases r0)
    case (Inl err)
    with Cons.prems e fr show ?thesis by simp
  next
    case (Inr v)
    with Cons.prems e have
      "build_points ev documentId baseMetadata first (Suc i) rest
         (pts @ [\<lparr>point_id = uuidv4 ev (ids_drawn w0), point_vector = v,
                   payload = obj_spread
                     [(''documentId'', JStr documentId), (''text'', chunk_text c),
                      (''page'', js_or (chunk_page c) JNull), (''chunkIndex'', chunkIndex c)]
                     baseMetadata\<rparr>])
         (w0\<lparr>ids_drawn := Suc (ids_drawn w0)\<rparr>) = (r, w1)"
      by simp
    from Cons.IH[OF this] fr show ?thesis by simp
  qed
qed

lemma build_points_error:
  assumes "build_points ev documentId baseMetadata first i chunks pts w = (Inl e, w1)"
  shows "e = InvalidEmbeddingResponse"
  using assms
proof (induction chunks arbitrary: i pts w)
  case Nil
  then show ?case by simp
next
  case (Cons c rest)
  obtain r0 w0 where e: "(if i = 0 then (Inr first, w) else embed ev (chunk_text c) w) = (r0, w0)"
    by (cases "(if i = 0 then (Inr first, w) else embed ev (chunk_text c) w)")
  show ?case
  proof (cases r0)
    case (Inl err)
    with e have "embed ev (chunk_text c) w = (Inl err, w0)" by (auto split: if_splits)
    then have "err = InvalidEmbeddingResponse" by (rule embed_error)
    with Cons.prems e Inl show ?thesis by simp
  next
    case (Inr v)
    with Cons.prems e show ?thesis by (auto dest: Cons.IH)
  qed
qed

text \<open>Every point the loop pushes carries the payload of the source's object literal.\<close>

lemma build_points_payload:
  assumes "build_points ev documentId baseMetadata first i chunks pts w = (Inr out, w1)"
  shows "\<exists>new. out = pts @ new \<and> length new = length chunks
           \<and> (\<forall>j < length chunks. payload (new ! j) =
                 obj_spread
                   [(''documentId'', JStr documentId), (''text'', chunk_text (chunks ! j)),
                    (''page'', js_or (chunk_page (chunks ! j)) JNull),
                    (''chunkIndex'', chunkIndex (chunks ! j))]
                   baseMetadata)"
  using assms
proof (induction chunks arbitrary: i pts w)
  case Nil
  then show ?case by simp
next
  case (Cons c rest)
  obtain r0 w0 where e: "(if i = 0 then (Inr first, w) else embed ev (chunk_text c) w) = (r0, w0)"
    by (cases "(if i = 0 then (Inr first, w) else embed ev (chunk_text c) w)")
  show ?case
  proof (cases r0)
    case (Inl err)
    with Cons.prems e show ?thesis by simp
  next
    case (Inr v)
    let ?p = "\<lparr>point_id = uuidv4 ev (ids_drawn w0), point_vector = v,
                   payload = obj_spread
                     [(''documentId'', JStr documentId), (''text'', chunk_text c),
                      (''page'', js_or (chunk_page c) JNull), (''chunkIndex'', chunkIndex c)]
                     baseMetadata\<rparr>"
    from Inr Cons.prems e have
      "build_points ev documentId baseMetadata first (Suc i) rest (pts @ [?p])
         (w0\<lparr>ids_drawn := Suc (ids_drawn w0)\<rparr>) = (Inr out, w1)"
      by simp
    from Cons.IH[OF this] obtain new where new: "out = (pts @ [?p]) @ new" "length new = length rest"
      and pl: "\<forall>j < length rest. payload (new ! j) =
                 obj_spread
                   [(''documentId'', JStr documentId), (''text'', chunk_text (rest ! j)),
                    (''page'', js_or (chunk_page (rest ! j)) JNull),
                    (''chunkIndex'', chunkIndex (rest ! j))]
                   baseMetadata" by blast
    show ?thesis
    proof (intro exI[of _ "?p # new"] conjI allI impI)
      show "out = pts @ ?p # new" using new by simp
      show "length (?p # new) = length (c # rest)" using new by simp
      fix j assume "j < length (c # rest)"
      then show "payload ((?p # new) ! j) =
                 obj_spread
                   [(''documentId'', JStr documentId), (''text'', chunk_text ((c # rest) ! j)),
                    (''page'', js_or (chunk_page ((c # rest) ! j)) JNull),
                    (''chunkIndex'', chunkIndex ((c # rest) ! j))]
                   baseMetadata"
        using pl by (cases j) simp_all
    qed
  qed
qed

lemma set_upsert_point: "set (upsert_point p pts) \<subseteq> insert p (set pts)"
  by (induction pts) auto

lemma set_qdrant_upsert: "set (qdrant_upsert new pts) \<subseteq> set pts \<union> set new"
  unfolding qdrant_upsert_def
proof (induction new arbitrary: pts)
  case Nil
  show ?case by simp
next
  case (Cons p new)
  from Cons.IH[of "upsert_point p pts"] set_upsert_point[of p pts] show ?case by auto
qed

lemma upsertChunks_success:
  assumes ok: "upsertChunks ev documentId chunks baseMetadata w = (Inr n, w')" and ne: "chunks \<noteq> []"
  obtains w3 :: world and pts where "n = length chunks" "length pts = length chunks"
    "\<forall>j < length chunks. payload (pts ! j) =
        obj_spread
          [(''documentId'', JStr documentId), (''text'', chunk_text (chunks ! j)),
           (''page'', js_or (chunk_page (chunks ! j)) JNull),
           (''chunkIndex'', chunkIndex (chunks ! j))]
          baseMetadata"
    "requests w' = requests w3 @ [Upsert (QDRANT_COLLECTION ev) pts]"
    "points w' = qdrant_upsert pts (points w)"
proof -
  from ne obtain c0 rest where chunks: "chunks = c0 # rest" by (cases chunks) auto
  obtain r1 w1 where e1: "embed ev (chunk_text c0) w = (r1, w1)" by (cases "embed ev (chunk_text c0) w")
  with ok chunks obtain first where r1: "r1 = Inr first"
    by (cases r1) (auto simp: upsertChunks_def)
  from ok chunks e1 r1 obtain len where len: "js_length first = Inr len"
    by (cases "js_length first") (auto simp: upsertChunks_def)
  obtain r2 w2 where e2: "ensureCollection ev len w1 = (r2, w2)" by (cases "ensureCollection ev len w1")
  with ok chunks e1 r1 len obtain u where r2: "r2 = Inr u"
    by (cases r2) (auto simp: upsertChunks_def)
  obtain r3 w3 where e3: "build_points ev documentId baseMetadata first 0 chunks [] w2 = (r3, w3)"
    by (cases "build_points ev documentId baseMetadata first 0 chunks [] w2")
  with ok chunks e1 r1 len e2 r2 obtain pts where r3: "r3 = Inr pts"
    by (cases r3) (auto simp: upsertChunks_def)
  from ok chunks e1 r1 len e2 r2 e3 r3 have up: "qdrant_up ev w3 (Upsert (QDRANT_COLLECTION ev) pts)"
    and n: "n = length pts"
    and w': "w' = (log_request (Upsert (QDRANT_COLLECTION ev) pts) w3)\<lparr>points := qdrant_upsert pts (points w3)\<rparr>"
    by (auto simp: upsertChunks_def Let_def split: if_splits)
  from build_points_payload[OF e3[unfolded r3]] have lp: "length pts = length chunks"
    and pl: "\<forall>j < length chunks. payload (pts ! j) =
        obj_spread
          [(''documentId'', JStr documentId), (''text'', chunk_text (chunks ! j)),
           (''page'', js_or (chunk_page (chunks ! j)) JNull),
           (''chunkIndex'', chunkIndex (chunks ! j))]
          baseMetadata"
    by auto
  have "points w3 = points w"
    using build_points_frame[OF e3] ensureCollection_frame(1)[OF e2] embed_frame(1)[OF e1] by simp
  with w' have "points w' = qdrant_upsert pts (points w)"
    and "requests w' = requests w3 @ [Upsert (QDRANT_COLLECTION ev) pts]"
    by (simp_all add: log_request_def)
  with n lp pl show ?thesis by (intro that[of pts w3]) simp_all
qed


subsection \<open>A failed embedding\<close>



subsection \<open>The payload of a stored point\<close>

text \<open>Claim C10: baseMetadata is spread into the payload after the core fields, so a
  baseMetadata key named documentId, text, page or chunkIndex overrides the core field.
  For every key \<open>k\<close> of baseMetadata, every point of the batch a successful upsertChunks
  sends, and every point it adds to the collection, carries baseMetadata's value under
  \<open>k\<close>; with \<open>k = documentId\<close> that is baseMetadata.documentId, not the argument.\<close>

theorem baseMetadata_overrides_core_fields:
  assumes ok: "upsertChunks ev documentId chunks baseMetadata w = (Inr n, w')"
    and key: "obj_lookup baseMetadata k = Some v"
  shows "(\<forall>p \<in> set (points w') - set (points w). obj_lookup (payload p) k = Some v)
       \<and> (chunks \<noteq> [] \<longrightarrow>
            (\<exists>pts. last (requests w') = Upsert (QDRANT_COLLECTION ev) pts
                 \<and> length pts = length chunks
                 \<and> (\<forall>p \<in> set pts. obj_lookup (payload p) k = Some v)))"
proof (cases "chunks = []")
  case True
  with ok show ?thesis by (simp add: upsertChunks_def)
next
  case False
  show ?thesis
  proof (rule upsertChunks_success[OF ok False])
  fix w3 :: world and pts
  assume "n = length chunks" and lp: "length pts = length chunks"
    and pl: "\<forall>j < length chunks. payload (pts ! j) =
        obj_spread
          [(''documentId'', JStr documentId), (''text'', chunk_text (chunks ! j)),
           (''page'', js_or (chunk_page (chunks ! j)) JNull),
           (''chunkIndex'', chunkIndex (chunks ! j))]
          baseMetadata"
    and rq: "requests w' = requests w3 @ [Upsert (QDRANT_COLLECTION ev) pts]"
    and ps: "points w' = qdrant_upsert pts (points w)"
  have batch: "\<forall>p \<in> set pts. obj_lookup (payload p) k = Some v"
  proof
    fix p assume "p \<in> set pts"
    then obtain j where "j < length pts" "p = pts ! j" by (auto simp: in_set_conv_nth)
    with lp pl key show "obj_lookup (payload p) k = Some v" by (simp add: obj_lookup_spread)
  qed
  have sub: "set (points w') - set (points w) \<subseteq> set pts"
    using set_qdrant_upsert[of pts "points w"] unfolding ps by blast
  have stored: "\<forall>p \<in> set (points w') - set (points w). obj_lookup (payload p) k = Some v"
  proof
    fix p assume "p \<in> set (points w') - set (points w)"
    with sub have "p \<in> set pts" by (rule subsetD)
    with batch show "obj_lookup (payload p) k = Some v" by (rule bspec)
  qed
  have lastreq: "last (requests w') = Upsert (QDRANT_COLLECTION ev) pts"
    unfolding rq by simp
  from lastreq lp batch have "\<exists>pts. last (requests w') = Upsert (QDRANT_COLLECTION ev) pts
                 \<and> length pts = length chunks
                 \<and> (\<forall>p \<in> set pts. obj_lookup (payload p) k = Some v)"
    by (intro exI[of _ pts] conjI)
  with stored show ?thesis by (intro conjI impI)
  qed
qed

theorem baseMetadata_overrides_core_fields_witness:
  "fst (upsertChunks test_env ''B'' [text_chunk ''beta'' 0] [(''documentId'', JStr ''A'')] world_with_A)
     = Inr 1
   \<and> obj_lookup [(''documentId'', JStr ''A'')] ''documentId'' = Some (JStr ''A'')
   \<and> (\<exists>pts. last (requests (snd (upsertChunks test_env ''B'' [text_chunk ''beta'' 0]
                                     [(''documentId'', JStr ''A'')] world_with_A)))
                = Upsert ''pdf_chunks'' pts
            \<and> length pts = 1
            \<and> (\<forall>p \<in> set pts. obj_lookup (payload p) ''documentId'' = Some (JStr ''A'')))"
proof -
  let ?run = "upsertChunks test_env ''B'' [text_chunk ''beta'' 0] [(''documentId'', JStr ''A'')] world_with_A"
  have ok: "fst ?run = Inr 1" by code_simp
  then have run: "?run = (Inr 1, snd ?run)" by (simp add: prod_eq_iff)
  have key: "obj_lookup [(''documentId'', JStr ''A'')] ''documentId'' = Some (JStr ''A'')"
    by (simp add: obj_lookup_def)
  have coll: "QDRANT_COLLECTION test_env = ''pdf_chunks''" by (simp add: test_env_def)
  from baseMetadata_overrides_core_fields[OF run key]
  have "\<exists>pts. last (requests (snd ?run)) = Upsert (QDRANT_COLLECTION test_env) pts
            \<and> length pts = length [text_chunk ''beta'' 0]
            \<and> (\<forall>p \<in> set pts. obj_lookup (payload p) ''documentId'' = Some (JStr ''A''))"
    by simp
  then have "\<exists>pts. last (requests (snd ?run)) = Upsert ''pdf_chunks'' pts
            \<and> length pts = 1
            \<and> (\<forall>p \<in> set pts. obj_lookup (payload p) ''documentId'' = Some (JStr ''A''))"
    unfolding coll by simp
  with ok key show ?thesis by (intro conjI)
qed

subsection \<open>Isolation of documents in the shared collection\<close>

lemma payload_matches_documentId:
  assumes "payload_matches pl ''documentId'' (JStr a)" "a \<noteq> b"
  shows "obj_lookup pl ''documentId'' \<noteq> Some (JStr b)"
  using assms by (auto simp: payload_matches_def split: option.splits jsval.splits)

lemma qdrant_search_filtered:
  assumes "r \<in> set (qdrant_search sim pts qv limit must)"
  shows "\<exists>p \<in> set pts. result_payload r = payload p \<and> result_id r = point_id p
           \<and> list_all (\<lambda>(k, v). payload_matches (payload p) k v) must"
proof -
  from assms have "r \<in> set (map (\<lambda>p. \<lparr>result_id = point_id p, score = sim qv (point_vector p), result_payload = payload p\<rparr>)
             (filter (\<lambda>p. list_all (\<lambda>(k, v). payload_matches (payload p) k v) must) pts))"
    unfolding qdrant_search_def by (auto dest: in_set_takeD)
  then show ?thesis by auto
qed

lemma search_results:
  assumes "search ev documentId queryText topK w = (Inr results, w')"
  obtains qv where "results = qdrant_search (similarity ev) (points w) qv topK [(''documentId'', JStr documentId)]"
proof -
  obtain r1 w1 where e1: "embed ev queryText w = (r1, w1)" by (cases "embed ev queryText w")
  with assms obtain qv where r1: "r1 = Inr qv" by (cases r1) (auto simp: search_def)
  from assms e1 r1 obtain len where len: "js_length qv = Inr len"
    by (cases "js_length qv") (auto simp: search_def)
  obtain r2 w2 where e2: "ensureCollection ev len w1 = (r2, w2)" by (cases "ensureCollection ev len w1")
  with assms e1 r1 len obtain u where r2: "r2 = Inr u" by (cases r2) (auto simp: search_def)
  from assms e1 r1 len e2 r2 have
    "results = qdrant_search (similarity ev) (points w2) qv topK [(''documentId'', JStr documentId)]"
    by (auto simp: search_def Let_def split: if_splits)
  moreover have "points w2 = points w"
    using ensureCollection_frame(1)[OF e2] embed_frame(1)[OF e1] by simp
  ultimately show ?thesis by (intro that[of qv]) simp
qed

text \<open>Claim C1: for distinct document ids \<open>A\<close> and \<open>B\<close> indexed into the shared
  collection, search(A, q, k) never returns a result whose payload documentId equals
  \<open>B\<close>. Every result is a point of the shared collection that satisfies the must-match
  condition on the documentId key, whatever the collection holds.\<close>

theorem search_isolation:
  assumes res: "search ev A queryText topK w = (Inr results, w')" and ab: "A \<noteq> B"
  shows "\<forall>r \<in> set results.
           obj_lookup (result_payload r) ''documentId'' \<noteq> Some (JStr B)
         \<and> payload_matches (result_payload r) ''documentId'' (JStr A)
         \<and> (\<exists>p \<in> set (points w). result_payload r = payload p)"
proof
  fix r assume r: "r \<in> set results"
  from search_results[OF res] obtain qv where
    "results = qdrant_search (similarity ev) (points w) qv topK [(''documentId'', JStr A)]" by blast
  with r qdrant_search_filtered[of r "similarity ev" "points w" qv topK "[(''documentId'', JStr A)]"]
  obtain p where p: "p \<in> set (points w)" "result_payload r = payload p"
    and m: "payload_matches (payload p) ''documentId'' (JStr A)" by auto
  from payload_matches_documentId[OF m ab] p m
  show "obj_lookup (result_payload r) ''documentId'' \<noteq> Some (JStr B)
         \<and> payload_matches (result_payload r) ''documentId'' (JStr A)
         \<and> (\<exists>p \<in> set (points w). result_payload r = payload p)" by auto
qed

theorem search_isolation_witness:
  "fst (search test_env ''A'' (JStr ''q'') 5 two_doc_world)
     = Inr [\<lparr>result_id = ''0'', score = 0,
              result_payload = [(''documentId'', JStr ''A''), (''text'', JArr [JStr ''alpha'']),
                                (''page'', JNull), (''chunkIndex'', JNum 0),
                                (''filename'', JStr ''a.pdf'')]\<rparr>]
   \<and> ''A'' \<noteq> ''B''
   \<and> map (\<lambda>p. obj_lookup (payload p) ''documentId'') (points two_doc_world)
       = [Some (JStr ''A''), Some (JStr ''B'')]
   \<and> obj_lookup [(''documentId'', JStr ''A''), (''text'', JArr [JStr ''alpha'']),
                  (''page'', JNull), (''chunkIndex'', JNum 0),
                  (''filename'', JStr ''a.pdf'')] ''documentId'' \<noteq> Some (JStr ''B'')"
proof -
  let ?run = "search test_env ''A'' (JStr ''q'') 5 two_doc_world"
  let ?pl = "[(''documentId'', JStr ''A''), (''text'', JArr [JStr ''alpha'']),
              (''page'', JNull), (''chunkIndex'', JNum 0), (''filename'', JStr ''a.pdf'')]"
  let ?r = "\<lparr>result_id = ''0'', score = 0, result_payload = ?pl\<rparr>"
  have found: "fst ?run = Inr [?r]" by code_simp
  then have run: "?run = (Inr [?r], snd ?run)" by (simp add: prod_eq_iff)
  have ab: "''A'' \<noteq> ''B''" by simp
  have both: "map (\<lambda>p. obj_lookup (payload p) ''documentId'') (points two_doc_world)
       = [Some (JStr ''A''), Some (JStr ''B'')]" by code_simp
  from search_isolation[OF run ab]
  have "obj_lookup (result_payload ?r) ''documentId'' \<noteq> Some (JStr ''B'')" by simp
  then have "obj_lookup ?pl ''documentId'' \<noteq> Some (JStr ''B'')" by simp
  with found ab both show ?thesis by (intro conjI)
qed

section \<open>Properties of the chat route\<close>

subsection \<open>Candidate sentences of the fallback scorer\<close>

lemma filter_dropWhile_sep: "filter (\<lambda>c. \<not> sep c) (dropWhile sep cs) = filter (\<lambda>c. \<not> sep c) cs"
  by (induction cs) auto

lemma concat_split_runs: "concat (split_runs sep cur s) = cur @ filter (\<lambda>c. \<not> sep c) s"
  by (induction sep cur s rule: split_runs.induct) (simp_all add: filter_dropWhile_sep)

lemma split_runs_no_sep:
  assumes "\<forall>c \<in> set cur. \<not> sep c" "x \<in> set (split_runs sep cur s)"
  shows "\<forall>c \<in> set x. \<not> sep c"
  using assms
proof (induction sep cur s rule: split_runs.induct)
  case (1 sep cur)
  then show ?case by simp
next
  case (2 sep cur c cs)
  show ?case
  proof (cases "sep c")
    case True
    with "2.prems" have "x = cur \<or> x \<in> set (split_runs sep [] (dropWhile sep cs))" by simp
    then show ?thesis
    proof
      assume "x = cur"
      with "2.prems"(1) show ?thesis by simp
    next
      assume "x \<in> set (split_runs sep [] (dropWhile sep cs))"
      with "2.IH"(1)[OF True] show ?thesis by simp
    qed
  next
    case False
    with "2.prems" have "x \<in> set (split_runs sep (cur @ [c]) cs)" by simp
    moreover from False "2.prems"(1) have "\<forall>c' \<in> set (cur @ [c]). \<not> sep c'" by simp
    ultimately show ?thesis using "2.IH"(2)[OF False] by blast
  qed
qed

text \<open>Claim C9, as stated: the scorer discards exactly the fragments whose trimmed length
  is below 10 and keeps every fragment of length 10 or more. The filter is
  \<^verbatim>\<open>s.trim().length > 10\<close>: a fragment of trimmed length exactly 10 is discarded.\<close>

theorem fragment_of_length_10_discarded:
  "js_split sentence_terminal ''abcdefghij. This one is long enough.''
     = [''abcdefghij'', '' This one is long enough'', '''']
   \<and> length (js_trim ''abcdefghij'') = 10
   \<and> sentences ''abcdefghij. This one is long enough.'' = ['' This one is long enough'']"
  by code_simp

text \<open>Claim C9, amended: the scorer splits the content at every maximal run of the
  characters \<^verbatim>\<open>.\<close>, \<^verbatim>\<open>!\<close> and \<^verbatim>\<open>?\<close> (the fragments hold none of them and together
  hold every other character, in order), discards exactly the fragments whose trimmed
  length is at most 10, and keeps every fragment of trimmed length 11 or more.\<close>

theorem sentences_kept_iff:
  "sentences doc = filter (\<lambda>s. 11 \<le> length (js_trim s)) (js_split sentence_terminal doc)
   \<and> (\<forall>s \<in> set (js_split sentence_terminal doc).
         (s \<in> set (sentences doc)) = (11 \<le> length (js_trim s)))
   \<and> (\<forall>s \<in> set (js_split sentence_terminal doc). \<forall>c \<in> set s. \<not> sentence_terminal c)
   \<and> concat (js_split sentence_terminal doc) = filter (\<lambda>c. \<not> sentence_terminal c) doc"
proof (intro conjI)
  have gt: "(10 < n) = (11 \<le> n)" for n :: nat by arith
  show eq: "sentences doc = filter (\<lambda>s. 11 \<le> length (js_trim s)) (js_split sentence_terminal doc)"
    by (simp add: sentences_def gt)
  show "\<forall>s \<in> set (js_split sentence_terminal doc).
         (s \<in> set (sentences doc)) = (11 \<le> length (js_trim s))"
    unfolding eq by simp
  show "\<forall>s \<in> set (js_split sentence_terminal doc). \<forall>c \<in> set s. \<not> sentence_terminal c"
  proof
    fix s assume "s \<in> set (js_split sentence_terminal doc)"
    then have "s \<in> set (split_runs sentence_terminal [] doc)" by (simp only: js_split_def)
    from split_runs_no_sep[OF _ this] show "\<forall>c \<in> set s. \<not> sentence_terminal c" by simp
  qed
  show "concat (js_split sentence_terminal doc) = filter (\<lambda>c. \<not> sentence_terminal c) doc"
    by (simp add: js_split_def concat_split_runs)
qed

theorem sentences_kept_iff_witness:
  "'' This one is long enough'' \<in> set (js_split sentence_terminal ''abcdefghij. This one is long enough.'')
   \<and> '' This one is long enough'' \<in> set (sentences ''abcdefghij. This one is long enough.'')"
proof -
  have mem: "'' This one is long enough'' \<in> set (js_split sentence_terminal ''abcdefghij. This one is long enough.'')"
    by code_simp
  have len: "11 \<le> length (js_trim '' This one is long enough'')" by code_simp
  from sentences_kept_iff[of "''abcdefghij. This one is long enough.''"] mem len
  show ?thesis by blast
qed

subsection \<open>The caps of the context assembler\<close>

text \<open>With non-negative caps on the context, and a history cap of at least 1, the three
  caps hold.\<close>

lemma js_slice_prefix: "0 \<le> n \<Longrightarrow> js_slice xs 0 n = take (nat n) xs"
  by (auto simp: js_slice_def Let_def min_def)

lemma js_slice_from_suffix:
  assumes "0 < n"
  shows "js_slice_from xs (- n) = drop (length xs - nat n) xs"
proof -
  let ?len = "int (length xs)"
  have k: "nat (max (?len + - n) 0) = length xs - nat n" using assms by (simp add: max_def) linarith
  have "js_slice_from xs (- n) = take (nat (?len - max (?len + - n) 0)) (drop (nat (max (?len + - n) 0)) xs)"
    using assms by (simp add: js_slice_from_def js_slice_def Let_def)
  also have "\<dots> = drop (length xs - nat n) xs"
    unfolding k by (rule take_all) (simp add: max_def)
  finally show ?thesis .
qed

lemma context_caps:
  assumes "0 \<le> MAX_CONTEXT_CHUNKS cfg" "0 \<le> CONTEXT_CHARS_PER_CHUNK cfg"
  shows "int (length (normalizedContext cfg json contextResults)) \<le> MAX_CONTEXT_CHUNKS cfg"
    and "\<forall>t \<in> set (normalizedContext cfg json contextResults).
           t \<noteq> [] \<and> int (length t) \<le> CONTEXT_CHARS_PER_CHUNK cfg"
proof -
  have "length (normalizedContext cfg json contextResults)
          \<le> length (js_slice contextResults 0 (MAX_CONTEXT_CHUNKS cfg))"
    unfolding normalizedContext_def
    by (rule order_trans[OF length_filter_le]) simp
  also have "\<dots> \<le> nat (MAX_CONTEXT_CHUNKS cfg)" by (simp add: js_slice_prefix assms)
  finally show "int (length (normalizedContext cfg json contextResults)) \<le> MAX_CONTEXT_CHUNKS cfg"
    using assms by simp
  show "\<forall>t \<in> set (normalizedContext cfg json contextResults).
           t \<noteq> [] \<and> int (length t) \<le> CONTEXT_CHARS_PER_CHUNK cfg"
    using assms by (auto simp: normalizedContext_def js_slice_prefix)
qed

lemma history_cap:
  assumes "1 \<le> HISTORY_MESSAGES cfg"
  shows "recentHistory cfg h = drop (length h - nat (HISTORY_MESSAGES cfg)) h"
    and "int (length (recentHistory cfg h)) \<le> HISTORY_MESSAGES cfg"
proof -
  show eq: "recentHistory cfg h = drop (length h - nat (HISTORY_MESSAGES cfg)) h"
    using assms by (cases h) (simp_all add: recentHistory_def js_slice_from_suffix)
  show "int (length (recentHistory cfg h)) \<le> HISTORY_MESSAGES cfg"
    unfolding eq using assms by simp
qed

lemma negative_context_cap:
  "normalizedContext \<lparr>MAX_CONTEXT_CHUNKS = - 1, CONTEXT_CHARS_PER_CHUNK = 1200, HISTORY_MESSAGES = 4\<rparr> json
     [\<lparr>item_text = JStr ''a'', item_page = JNull, item_score = JNum 1\<rparr>,
      \<lparr>item_text = JStr ''b'', item_page = JNull, item_score = JNum 1\<rparr>] = [''a'']"
  by (simp add: normalizedContext_def js_slice_def)

text \<open>Claim C8: for every results list, history list and configuration, the assembled
  package has at most maxContextChunks context texts, each of at most charsPerChunk
  characters, and at most the last historyMessages entries of the history. The history is
  cut with \<^verbatim>\<open>conversationHistory.slice(-HISTORY_MESSAGES)\<close>; with
  \<open>HISTORY_MESSAGES = 0\<close> that is \<^verbatim>\<open>slice(-0)\<close>, the whole history: two messages are
  forwarded under a cap of 0.\<close>

theorem history_cap_zero_forwards_everything:
  "recentHistory \<lparr>MAX_CONTEXT_CHUNKS = 40, CONTEXT_CHARS_PER_CHUNK = 1200, HISTORY_MESSAGES = 0\<rparr>
     [\<lparr>msg_role = ''user'', msg_content = ''q1''\<rparr>, \<lparr>msg_role = ''assistant'', msg_content = ''a1''\<rparr>]
   = [\<lparr>msg_role = ''user'', msg_content = ''q1''\<rparr>, \<lparr>msg_role = ''assistant'', msg_content = ''a1''\<rparr>]"
  by (simp add: recentHistory_def js_slice_from_def js_slice_def)

end
